theory Spec2Isabelle
  imports Main
begin

section \<open>The surroundings of the EC2 provider\<close>

text \<open>
  The provider class of \<^verbatim>\<open>ocw/lib/EC2.py\<close> talks to three things it does not own: the
  AWS SDK (boto3), the secrets vault (\<^verbatim>\<open>EC2Credential\<close> of \<^verbatim>\<open>ocw/lib/vault.py\<close>) and its
  base class (\<^verbatim>\<open>Provider\<close> of \<^verbatim>\<open>ocw/lib/provider.py\<close>). Each of them is a parameter of
  the model. Everything the provider does to the outside is appended to a trace of
  events, and what the SDK answers is a function of the trace so far, so that the same
  request may fail now and succeed later.

  A request to the SDK either answers or raises: its result is a sum, \<open>Inl\<close> the
  exception, and so is the result of every method that sends one. Building a handle
  with \<^verbatim>\<open>boto3.client\<close> or \<^verbatim>\<open>boto3.resource\<close> sends nothing, but it raises on a region
  name the library refuses (a name with a space in it, say), and then no handle exists.
  The methods of the vault credential are functions on the credential object.
\<close>

datatype exn = Exception string

datatype kind = Client | Resource

text \<open>
  What \<^verbatim>\<open>boto3.client(service, aws_access_key_id=..., aws_secret_access_key=...,
  region_name=...)\<close> or \<^verbatim>\<open>boto3.resource(...)\<close> returns. Two handles built from the same
  arguments are different Python objects: \<open>serial\<close> is the position in the trace at which
  the handle was built.
\<close>

record handle =
  kind :: kind
  service_name :: string
  aws_access_key_id :: "string option"
  aws_secret_access_key :: "string option"
  region_name :: string
  serial :: nat

record region_entry =
  RegionName :: string
  Endpoint :: string

record describe_regions_resp =
  Regions :: "region_entry list"

record list_clusters_resp =
  clusters :: "string list"

record image_entry =
  Name :: string
  CreationDate :: string
  ImageId :: string

record describe_images_resp =
  Images :: "image_entry list"

datatype ec2_instance = Instance string

datatype level = DEBUG | INFO | WARNING | ERROR

datatype pyval = PInt int | PStr string | PNone

fun pystr :: "string option \<Rightarrow> pyval" where
  "pystr None = PNone"
| "pystr (Some s) = PStr s"

text \<open>
  The events of a run: a handle built, a request to the SDK with what it answered
  (\<open>Inl\<close> is the exception it raised), a sleep of so many seconds, a log record (level,
  format string, arguments).
\<close>

datatype event =
    Boto3 handle
  | DescribeRegions handle "exn + describe_regions_resp"
  | ListClusters handle "exn + list_clusters_resp"
  | DescribeImages handle "string list" "exn + describe_images_resp"
  | DeregisterImage handle string bool "exn + unit"
  | InstancesFilter handle "string list" "exn + ec2_instance list"
  | Terminate ec2_instance "exn + unit"
  | Sleep nat
  | Log level string "pyval list"

text \<open>
  The SDK: each request is answered from the trace so far and the handle used.
  \<open>refuses\<close> is what the library raises when asked to build a handle for a region name,
  \<open>None\<close> when it builds one.
\<close>

record env =
  refuses :: "string \<Rightarrow> exn option"
  describe_regions :: "event list \<Rightarrow> handle \<Rightarrow> exn + describe_regions_resp"
  list_clusters :: "event list \<Rightarrow> handle \<Rightarrow> exn + list_clusters_resp"
  describe_images :: "event list \<Rightarrow> handle \<Rightarrow> string list \<Rightarrow> exn + describe_images_resp"
  deregister_image :: "event list \<Rightarrow> handle \<Rightarrow> string \<Rightarrow> bool \<Rightarrow> exn + unit"
  instances_filter :: "event list \<Rightarrow> handle \<Rightarrow> string list \<Rightarrow> exn + ec2_instance list"
  terminate :: "event list \<Rightarrow> ec2_instance \<Rightarrow> exn + unit"

text \<open>
  The vault credential object, of any type \<open>'c\<close>: \<^verbatim>\<open>EC2Credential(namespace)\<close>,
  \<^verbatim>\<open>isExpired()\<close>, \<^verbatim>\<open>renew()\<close>, \<^verbatim>\<open>getData(name)\<close> (which may fetch, so it returns the
  credential object too), \<^verbatim>\<open>getAuthExpire()\<close> and the attribute \<^verbatim>\<open>namespace\<close>.
\<close>

record 'c vault =
  EC2Credential :: "string \<Rightarrow> 'c"
  isExpired :: "'c \<Rightarrow> bool"
  renew :: "'c \<Rightarrow> 'c"
  getData :: "string \<Rightarrow> 'c \<Rightarrow> string \<times> 'c"
  getAuthExpire :: "'c \<Rightarrow> string"
  namespace :: "'c \<Rightarrow> string"

section \<open>The provider object\<close>

text \<open>
  The attributes of an \<^verbatim>\<open>EC2\<close> object under their mangled names, and \<open>oid\<close>, the identity
  of the object.
\<close>

record 'c EC2 =
  oid :: nat
  EC2__credentials :: 'c
  EC2__ec2_client :: "string \<rightharpoonup> handle"
  EC2__eks_client :: "string \<rightharpoonup> handle"
  EC2__ec2_resource :: "string \<rightharpoonup> handle"
  EC2__secret :: "string option"
  EC2__key :: "string option"

definition default_region :: string where
  "default_region = ''eu-central-1''"

definition boto3 :: "kind \<Rightarrow> string \<Rightarrow> string option \<Rightarrow> string option \<Rightarrow> string \<Rightarrow> event list \<Rightarrow> handle" where
  "boto3 k svc key_id secret_key region tr =
     \<lparr>kind = k, service_name = svc, aws_access_key_id = key_id,
      aws_secret_access_key = secret_key, region_name = region, serial = length tr\<rparr>"

text \<open>
  The library builds handles for the name of the default region, a region that exists;
  for any other name the environment says whether it does.
\<close>

definition region_error :: "env \<Rightarrow> string \<Rightarrow> exn option" where
  "region_error E region = (if region = default_region then None else refuses E region)"

text \<open>
  The three getters. The assignment to the cache comes after the call of the library, so
  nothing is stored when the library raises.
\<close>

definition ec2_resource :: "env \<Rightarrow> string \<Rightarrow> 'c EC2 \<Rightarrow> event list \<Rightarrow> (exn + handle) \<times> 'c EC2 \<times> event list" where
  "ec2_resource E region self tr =
     (case EC2__ec2_resource self region of
        None \<Rightarrow>
          (case region_error E region of
             Some e \<Rightarrow> (Inl e, self, tr)
           | None \<Rightarrow>
               (let h = boto3 Resource ''ec2'' (EC2__key self) (EC2__secret self) region tr
                in (Inr h, self\<lparr>EC2__ec2_resource := (EC2__ec2_resource self)(region \<mapsto> h)\<rparr>,
                    tr @ [Boto3 h])))
      | Some h \<Rightarrow> (Inr h, self, tr))"

definition ec2_client :: "env \<Rightarrow> string \<Rightarrow> 'c EC2 \<Rightarrow> event list \<Rightarrow> (exn + handle) \<times> 'c EC2 \<times> event list" where
  "ec2_client E region self tr =
     (case EC2__ec2_client self region of
        None \<Rightarrow>
          (case region_error E region of
             Some e \<Rightarrow> (Inl e, self, tr)
           | None \<Rightarrow>
               (let h = boto3 Client ''ec2'' (EC2__key self) (EC2__secret self) region tr
                in (Inr h, self\<lparr>EC2__ec2_client := (EC2__ec2_client self)(region \<mapsto> h)\<rparr>,
                    tr @ [Boto3 h])))
      | Some h \<Rightarrow> (Inr h, self, tr))"

definition eks_client :: "env \<Rightarrow> string \<Rightarrow> 'c EC2 \<Rightarrow> event list \<Rightarrow> (exn + handle) \<times> 'c EC2 \<times> event list" where
  "eks_client E region self tr =
     (case EC2__eks_client self region of
        None \<Rightarrow>
          (case region_error E region of
             Some e \<Rightarrow> (Inl e, self, tr)
           | None \<Rightarrow>
               (let h = boto3 Client ''eks'' (EC2__key self) (EC2__secret self) region tr
                in (Inr h, self\<lparr>EC2__eks_client := (EC2__eks_client self)(region \<mapsto> h)\<rparr>,
                    tr @ [Boto3 h])))
      | Some h \<Rightarrow> (Inr h, self, tr))"

definition all_regions :: "env \<Rightarrow> 'c EC2 \<Rightarrow> event list \<Rightarrow> (exn + string list) \<times> 'c EC2 \<times> event list" where
  "all_regions E self tr =
     (case ec2_client E default_region self tr of
        (Inl e, self1, tr1) \<Rightarrow> (Inl e, self1, tr1)
      | (Inr c, self1, tr1) \<Rightarrow>
          (case describe_regions E tr1 c of
             Inl e \<Rightarrow> (Inl e, self1, tr1 @ [DescribeRegions c (Inl e)])
           | Inr regions_resp \<Rightarrow>
               (Inr (map RegionName (Regions regions_resp)), self1,
                tr1 @ [DescribeRegions c (Inr regions_resp)])))"

subsection \<open>check\_credentials\<close>

text \<open>Lines 29 to 35: an expired credential is renewed and everything built from it dropped.\<close>

definition renew_expired :: "'c vault \<Rightarrow> 'c EC2 \<Rightarrow> 'c EC2" where
  "renew_expired V self =
     (if isExpired V (EC2__credentials self)
      then self\<lparr>EC2__credentials := renew V (EC2__credentials self),
                EC2__key := None,
                EC2__secret := None,
                EC2__ec2_resource := Map.empty,
                EC2__ec2_client := Map.empty,
                EC2__eks_client := Map.empty\<rparr>
      else self)"

text \<open>Lines 37 and 38: the secret, then the key, are read from the vault.\<close>

definition read_keys :: "'c vault \<Rightarrow> 'c EC2 \<Rightarrow> 'c EC2" where
  "read_keys V self =
     (case getData V ''secret_key'' (EC2__credentials self) of
        (s, c1) \<Rightarrow>
          (case getData V ''access_key'' c1 of
             (k, c2) \<Rightarrow> self\<lparr>EC2__credentials := c2, EC2__secret := Some s, EC2__key := Some k\<rparr>))"

text \<open>
  Lines 40 to 47, the loop over \<^verbatim>\<open>range(1, 60 * 5)\<close>: the result is \<open>True\<close> when the loop
  was left by \<^verbatim>\<open>return True\<close> and \<open>False\<close> when the range was used up.
\<close>

fun probe_loop :: "env \<Rightarrow> 'c vault \<Rightarrow> nat list \<Rightarrow> 'c EC2 \<Rightarrow> event list \<Rightarrow> bool \<times> 'c EC2 \<times> event list" where
  "probe_loop E V [] self tr = (False, self, tr)"
| "probe_loop E V (i # rest) self tr =
     (case all_regions E self tr of
        (Inr regions, self1, tr1) \<Rightarrow> (True, self1, tr1)
      | (Inl e, self1, tr1) \<Rightarrow>
          probe_loop E V rest self1
            (tr1 @ [Log INFO ''check_credentials (attemp:%d) with key %s expiring at %s ''
                      [PInt (int i), pystr (EC2__key self1),
                       PStr (getAuthExpire V (EC2__credentials self1))],
                    Sleep 1]))"

text \<open>
  The whole method. It returns \<^verbatim>\<open>True\<close> (\<open>Some True\<close>) from inside the loop, falls off its
  end after the last call (\<open>None\<close>), or raises what the last call raises.
\<close>

definition check_credentials :: "env \<Rightarrow> 'c vault \<Rightarrow> 'c EC2 \<Rightarrow> event list \<Rightarrow> (exn + bool option) \<times> 'c EC2 \<times> event list" where
  "check_credentials E V self tr =
     (case probe_loop E V [1..<60 * 5] (read_keys V (renew_expired V self)) tr of
        (True, self1, tr1) \<Rightarrow> (Inr (Some True), self1, tr1)
      | (False, self1, tr1) \<Rightarrow>
          (case all_regions E self1 tr1 of
             (Inl e, self2, tr2) \<Rightarrow> (Inl e, self2, tr2)
           | (Inr regions, self2, tr2) \<Rightarrow> (Inr None, self2, tr2)))"

subsection \<open>Listing clusters, deleting an instance\<close>

text \<open>The loop of \<^verbatim>\<open>all_clusters\<close> over the regions, with the list built so far.\<close>

fun clusters_loop :: "env \<Rightarrow> string list \<Rightarrow> string list \<Rightarrow> 'c EC2 \<Rightarrow> event list \<Rightarrow> (exn + string list) \<times> 'c EC2 \<times> event list" where
  "clusters_loop E [] cs self tr = (Inr cs, self, tr)"
| "clusters_loop E (region # rest) cs self tr =
     (case eks_client E region self tr of
        (Inl e, self1, tr1) \<Rightarrow> (Inl e, self1, tr1)
      | (Inr c, self1, tr1) \<Rightarrow>
          (case list_clusters E tr1 c of
             Inl e \<Rightarrow> (Inl e, self1, tr1 @ [ListClusters c (Inl e)])
           | Inr response \<Rightarrow>
               clusters_loop E rest (cs @ clusters response) self1
                 (tr1 @ [ListClusters c (Inr response)])))"

definition all_clusters :: "env \<Rightarrow> 'c EC2 \<Rightarrow> event list \<Rightarrow> (exn + string list) \<times> 'c EC2 \<times> event list" where
  "all_clusters E self tr =
     (case all_regions E self tr of
        (Inl e, self1, tr1) \<Rightarrow> (Inl e, self1, tr1)
      | (Inr regions, self1, tr1) \<Rightarrow> clusters_loop E regions [] self1 tr1)"

definition delete_instance :: "env \<Rightarrow> string \<Rightarrow> 'c EC2 \<Rightarrow> event list \<Rightarrow> (exn + unit) \<times> 'c EC2 \<times> event list" where
  "delete_instance E instance_id self tr =
     (case ec2_resource E default_region self tr of
        (Inl e, self1, tr1) \<Rightarrow> (Inl e, self1, tr1)
      | (Inr res, self1, tr1) \<Rightarrow>
          (case instances_filter E tr1 res [instance_id] of
             Inl e \<Rightarrow> (Inl e, self1, tr1 @ [InstancesFilter res [instance_id] (Inl e)])
           | Inr instances_list \<Rightarrow>
               (let tr2 = tr1 @ [InstancesFilter res [instance_id] (Inr instances_list)]
                in if length instances_list > 0
                   then (terminate E tr2 (instances_list ! 0), self1,
                         tr2 @ [Terminate (instances_list ! 0) (terminate E tr2 (instances_list ! 0))])
                   else (Inr (), self1,
                         tr2 @ [Log WARNING ''Instance {} is ACTIVE in local DB but does not exists on EC2''
                                  [PStr instance_id]]))))"

subsection \<open>Image names\<close>

text \<open>
  The three patterns of \<^verbatim>\<open>parse_image_name\<close> as data. They are compiled with
  \<^verbatim>\<open>re.RegexFlag.X\<close>, so their white space and line breaks are not part of them.
  \<open>Named n r\<close> is \<^verbatim>\<open>(?P<n>r)\<close>, \<open>Group r\<close> is \<^verbatim>\<open>(r)\<close>, \<open>NoneOf cs\<close> is \<^verbatim>\<open>[^cs]\<close>,
  \<open>DashOrWord\<close> is \<^verbatim>\<open>[-\w]\<close>, \<open>Digit\<close> is \<^verbatim>\<open>\d\<close>, \<open>Bol\<close> is \<^verbatim>\<open>^\<close>.
\<close>

datatype regex =
    Bol
  | Lit string
  | Digit
  | NoneOf string
  | DashOrWord
  | Seq "regex list"
  | Alt regex regex
  | Opt regex
  | Plus regex
  | Star regex
  | Group regex
  | Named string regex

definition version_re :: regex where
  "version_re = Named ''version'' (Seq [Plus Digit, Opt (Group (Seq [Lit ''-SP'', Plus Digit]))])"

definition kiwi_re :: regex where
  "kiwi_re = Named ''kiwi'' (Seq [Plus Digit, Lit ''.'', Plus Digit, Lit ''.'', Plus Digit])"

definition build_re :: regex where
  "build_re = Named ''build'' (Seq [Plus Digit, Lit ''.'', Plus Digit])"

definition regexes :: "regex list" where
  "regexes =
     [Seq [Bol, Lit ''openqa-SLES'', version_re,
           Lit ''-'', Named ''flavor'' (Lit ''EC2''),
           Lit ''.'', Named ''arch'' (Plus (NoneOf ''-'')),
           Lit ''-'', kiwi_re,
           Lit ''-'', Named ''type'' (Group (Alt (Lit ''BYOS'') (Lit ''On-Demand''))),
           Lit ''-Build'', build_re, Lit ''.raw.xz''],
      Seq [Bol, Lit ''openqa-SLES'', version_re,
           Opt (Group (Seq [Lit ''-'', Named ''type'' (Plus (NoneOf ''.''))])),
           Lit ''.'', Named ''arch'' (Plus (NoneOf ''-'')),
           Lit ''-'', kiwi_re,
           Lit ''-'', Named ''flavor'' (Seq [Lit ''EC2'', Star DashOrWord]),
           Lit ''-Build'', build_re, Lit ''.raw.xz''],
      Seq [Bol, Lit ''openqa-SLES'', version_re,
           Lit ''-'', Named ''flavor'' (Seq [Lit ''EC2'', Plus (NoneOf ''.'')]),
           Lit ''.'', Named ''arch'' (Plus (NoneOf ''-'')),
           Lit ''-'', kiwi_re,
           Lit ''-'', Lit ''Build'', build_re, Lit ''.raw.xz'']]"

text \<open>
  A Python dictionary of strings, in insertion order; \<^verbatim>\<open>None\<close> and the empty dictionary
  are false in a condition; \<^verbatim>\<open>m[k]\<close> raises \<^verbatim>\<open>KeyError\<close> on a missing key.
\<close>

type_synonym pydict = "(string \<times> string) list"

fun truthy :: "pydict option \<Rightarrow> bool" where
  "truthy None = False"
| "truthy (Some d) = (d \<noteq> [])"

fun getitem :: "pydict option \<Rightarrow> string \<Rightarrow> exn + string" where
  "getitem None k = Inl (Exception ''TypeError'')"
| "getitem (Some d) k = (case map_of d k of None \<Rightarrow> Inl (Exception ''KeyError'') | Some v \<Rightarrow> Inr v)"

text \<open>\<^verbatim>\<open>Image(name, flavor=, build=, date=, img_id=)\<close> of the base module; its \<^verbatim>\<open>id\<close> is \<open>image_id\<close>.\<close>

record 'd Image =
  image_name :: string
  image_flavor :: string
  image_build :: string
  image_date :: 'd
  image_id :: string

text \<open>
  What \<^verbatim>\<open>cleanup_all\<close> uses and this file does not define: the two methods inherited
  from \<^verbatim>\<open>Provider\<close>, and \<^verbatim>\<open>dateutil.parser.parse\<close>, which raises on a string that is no
  date.
\<close>

record 'd provider =
  parse_image_name_helper :: "string \<Rightarrow> regex list \<Rightarrow> pydict option"
  get_keeping_image_names :: "'d Image list \<Rightarrow> string set"
  parse :: "string \<Rightarrow> exn + 'd"

definition parse_image_name :: "'d provider \<Rightarrow> string \<Rightarrow> pydict option" where
  "parse_image_name P img_name = parse_image_name_helper P img_name regexes"

subsection \<open>cleanup\_all\<close>

text \<open>The first loop, lines 146 to 156, with the list \<^verbatim>\<open>images\<close> built so far.\<close>

fun collect_images :: "'c vault \<Rightarrow> 'd provider \<Rightarrow> 'c EC2 \<Rightarrow> image_entry list \<Rightarrow> 'd Image list \<Rightarrow> event list \<Rightarrow> (exn + 'd Image list) \<times> event list" where
  "collect_images V P self [] images tr = (Inr images, tr)"
| "collect_images V P self (img # rest) images tr =
     (let m = parse_image_name P (Name img) in
      if truthy m
      then (case getitem m ''build'' of
              Inl e \<Rightarrow> (Inl e, tr)
            | Inr b \<Rightarrow>
                (let tr1 = tr @ [Log DEBUG ''[{}]Image {} is candidate for deletion with build {}''
                                   [PStr (namespace V (EC2__credentials self)), PStr (Name img), PStr b]]
                 in case getitem m ''key'' of
                      Inl e \<Rightarrow> (Inl e, tr1)
                    | Inr k \<Rightarrow>
                        (case parse P (CreationDate img) of
                           Inl e \<Rightarrow> (Inl e, tr1)
                         | Inr d \<Rightarrow>
                             collect_images V P self rest
                               (images @ [\<lparr>image_name = Name img, image_flavor = k, image_build = b,
                                           image_date = d, image_id = ImageId img\<rparr>]) tr1)))
      else collect_images V P self rest images
             (tr @ [Log ERROR (''[{}] Unable to parse image name '{}'' @ [CHR 0x27])
                      [PStr (namespace V (EC2__credentials self)), PStr (Name img)]]))"

text \<open>The second loop, lines 160 to 162, over the images that are not kept.\<close>

fun deregister_images :: "env \<Rightarrow> 'd Image list \<Rightarrow> 'c EC2 \<Rightarrow> event list \<Rightarrow> (exn + unit) \<times> 'c EC2 \<times> event list" where
  "deregister_images E [] self tr = (Inr (), self, tr)"
| "deregister_images E (img # rest) self tr =
     (let tr1 = tr @ [Log INFO ''Delete image '{}' (ami:{})'' [PStr (image_name img), PStr (image_id img)]]
      in case ec2_client E default_region self tr1 of
           (Inl e, self1, tr2) \<Rightarrow> (Inl e, self1, tr2)
         | (Inr c, self1, tr2) \<Rightarrow>
             (case deregister_image E tr2 c (image_id img) False of
                Inl e \<Rightarrow> (Inl e, self1, tr2 @ [DeregisterImage c (image_id img) False (Inl e)])
              | Inr u \<Rightarrow>
                  deregister_images E rest self1
                    (tr2 @ [DeregisterImage c (image_id img) False (Inr u)])))"

definition cleanup_all :: "env \<Rightarrow> 'c vault \<Rightarrow> 'd provider \<Rightarrow> 'c EC2 \<Rightarrow> event list \<Rightarrow> (exn + unit) \<times> 'c EC2 \<times> event list" where
  "cleanup_all E V P self tr =
     (case ec2_client E default_region self tr of
        (Inl e, self1, tr1) \<Rightarrow> (Inl e, self1, tr1)
      | (Inr c, self1, tr1) \<Rightarrow>
          (case describe_images E tr1 c [''self''] of
             Inl e \<Rightarrow> (Inl e, self1, tr1 @ [DescribeImages c [''self''] (Inl e)])
           | Inr response \<Rightarrow>
               (case collect_images V P self1 (Images response) []
                       (tr1 @ [DescribeImages c [''self''] (Inr response)]) of
                  (Inl e, tr2) \<Rightarrow> (Inl e, self1, tr2)
                | (Inr images, tr2) \<Rightarrow>
                    (let keep_images = get_keeping_image_names P images
                     in deregister_images E [i \<leftarrow> images. image_name i \<notin> keep_images] self1 tr2))))"

subsection \<open>Construction\<close>


text \<open>
  \<^verbatim>\<open>EC2(vault_namespace)\<close>, that is \<^verbatim>\<open>EC2.__new__\<close>. The object stays in \<^verbatim>\<open>__instances\<close>
  also when its credential check raises. The result is the identity of the object
  returned.
\<close>

definition object_new :: "'c vault \<Rightarrow> string \<Rightarrow> nat \<Rightarrow> 'c EC2" where
  "object_new V vault_namespace n =
     \<lparr>oid = n,
      EC2__credentials = EC2Credential V vault_namespace,
      EC2__ec2_client = Map.empty,
      EC2__eks_client = Map.empty,
      EC2__ec2_resource = Map.empty,
      EC2__secret = None,
      EC2__key = None\<rparr>"


section \<open>Reading a trace\<close>

text \<open>
  What a run did, read off the events it added to the trace: the answers to its
  \<^verbatim>\<open>describe_regions\<close> requests, the seconds of each sleep.
\<close>

definition probes :: "event list \<Rightarrow> (exn + describe_regions_resp) list" where
  "probes evs = concat (map (\<lambda>e. case e of DescribeRegions h r \<Rightarrow> [r] | _ \<Rightarrow> []) evs)"

definition sleeps :: "event list \<Rightarrow> nat list" where
  "sleeps evs = concat (map (\<lambda>e. case e of Sleep n \<Rightarrow> [n] | _ \<Rightarrow> []) evs)"

text \<open>The \<^verbatim>\<open>list_clusters\<close> requests of a run, each with the handle used and the answer.\<close>

definition cluster_answers :: "event list \<Rightarrow> (handle \<times> (exn + list_clusters_resp)) list" where
  "cluster_answers evs = concat (map (\<lambda>e. case e of ListClusters h r \<Rightarrow> [(h, r)] | _ \<Rightarrow> []) evs)"

text \<open>The instances a run asked to terminate, and its log records of one level.\<close>

definition terminated :: "event list \<Rightarrow> ec2_instance list" where
  "terminated evs = concat (map (\<lambda>e. case e of Terminate i r \<Rightarrow> [i] | _ \<Rightarrow> []) evs)"

definition logged :: "level \<Rightarrow> event list \<Rightarrow> (string \<times> pyval list) list" where
  "logged l evs = concat (map (\<lambda>e. case e of Log l' f a \<Rightarrow> (if l' = l then [(f, a)] else []) | _ \<Rightarrow> []) evs)"

text \<open>
  The \<^verbatim>\<open>deregister_image\<close> requests of a run, each with its image id, its \<^verbatim>\<open>DryRun\<close> flag
  and its answer; the images a run deregistered: those of the requests that were no dry
  run and did not raise; what it means that an \<^verbatim>\<open>Image\<close> object was built from an entry of
  the \<^verbatim>\<open>describe_images\<close> answer, as the first loop of \<^verbatim>\<open>cleanup_all\<close> builds it; and the
  error record of an entry whose name does not parse.
\<close>

definition deregister_requests :: "event list \<Rightarrow> (string \<times> bool \<times> (exn + unit)) list" where
  "deregister_requests evs =
     concat (map (\<lambda>e. case e of DeregisterImage h i dry r \<Rightarrow> [(i, dry, r)] | _ \<Rightarrow> []) evs)"

definition deregistered :: "event list \<Rightarrow> string list" where
  "deregistered evs =
     map fst [q \<leftarrow> deregister_requests evs. \<not> fst (snd q) \<and> \<not> isl (snd (snd q))]"

definition built_from :: "'d provider \<Rightarrow> image_entry \<Rightarrow> 'd Image \<Rightarrow> bool" where
  "built_from P img i =
     (image_name i = Name img \<and> image_id i = ImageId img \<and>
      getitem (parse_image_name P (Name img)) ''key'' = Inr (image_flavor i) \<and>
      getitem (parse_image_name P (Name img)) ''build'' = Inr (image_build i) \<and>
      parse P (CreationDate img) = Inr (image_date i))"

definition unparsed :: "'c vault \<Rightarrow> 'c EC2 \<Rightarrow> image_entry \<Rightarrow> string \<times> pyval list" where
  "unparsed V self img =
     (''[{}] Unable to parse image name '{}'' @ [CHR 0x27],
      [PStr (namespace V (EC2__credentials self)), PStr (Name img)])"

section \<open>A vault and two clouds to run the provider on\<close>

record cred =
  cred_namespace :: string
  lease :: nat
  stale :: bool

definition demo_vault :: "cred vault" where
  "demo_vault =
     \<lparr>EC2Credential = (\<lambda>ns. \<lparr>cred_namespace = ns, lease = 0, stale = False\<rparr>),
      isExpired = stale,
      renew = (\<lambda>c. c\<lparr>lease := Suc (lease c), stale := False\<rparr>),
      getData = (\<lambda>name c. (name @ replicate (lease c) (CHR ''+''), c)),
      getAuthExpire = (\<lambda>c. ''never''),
      namespace = cred_namespace\<rparr>"

definition demo_regions :: describe_regions_resp where
  "demo_regions =
     \<lparr>Regions = [\<lparr>RegionName = ''eu-central-1'', Endpoint = ''ec2.eu-central-1.amazonaws.com''\<rparr>,
                 \<lparr>RegionName = ''us-east-1'', Endpoint = ''ec2.us-east-1.amazonaws.com''\<rparr>]\<rparr>"

definition demo_images :: describe_images_resp where
  "demo_images =
     \<lparr>Images = [\<lparr>Name = ''openqa-SLES15-SP2.x86_64-0.9.3-EC2-HVM-Build1.10.raw.xz'',
                  CreationDate = ''2020-01-10T10:00:00.000Z'', ImageId = ''ami-1''\<rparr>,
                \<lparr>Name = ''my-own-image'',
                  CreationDate = ''2020-01-11T10:00:00.000Z'', ImageId = ''ami-2''\<rparr>,
                \<lparr>Name = ''openqa-SLES15-SP2.x86_64-0.9.3-EC2-HVM-Build1.49.raw.xz'',
                  CreationDate = ''2020-02-10T10:00:00.000Z'', ImageId = ''ami-3''\<rparr>]\<rparr>"

text \<open>A cloud whose first \<open>n\<close> \<^verbatim>\<open>describe_regions\<close> requests fail and which answers from then on.\<close>

definition demo_aws :: "nat \<Rightarrow> env" where
  "demo_aws n =
     \<lparr>refuses = (\<lambda>region. if CHR '' '' \<in> set region then Some (Exception ''InvalidRegionError'')
                            else None),
      describe_regions = (\<lambda>tr h. if length (probes tr) < n then Inl (Exception ''AuthFailure'')
                                 else Inr demo_regions),
      list_clusters = (\<lambda>tr h. Inr \<lparr>clusters = (if region_name h = ''eu-central-1''
                                                  then [''alpha'', ''beta''] else [''gamma''])\<rparr>),
      describe_images = (\<lambda>tr h owners. Inr demo_images),
      deregister_image = (\<lambda>tr h image dry. Inr ()),
      instances_filter = (\<lambda>tr h ids. Inr (if ids = [''i-1''] then [Instance ''i-1'', Instance ''i-2''] else [])),
      terminate = (\<lambda>tr i. Inr ())\<rparr>"

text \<open>A cloud that refuses every request.\<close>

definition aws_down :: env where
  "aws_down =
     \<lparr>refuses = (\<lambda>region. if CHR '' '' \<in> set region then Some (Exception ''InvalidRegionError'')
                            else None),
      describe_regions = (\<lambda>tr h. Inl (Exception ''AuthFailure'')),
      list_clusters = (\<lambda>tr h. Inl (Exception ''AuthFailure'')),
      describe_images = (\<lambda>tr h owners. Inl (Exception ''AuthFailure'')),
      deregister_image = (\<lambda>tr h image dry. Inl (Exception ''AuthFailure'')),
      instances_filter = (\<lambda>tr h ids. Inl (Exception ''AuthFailure'')),
      terminate = (\<lambda>tr i. Inl (Exception ''AuthFailure''))\<rparr>"

definition demo_self :: "cred EC2" where
  "demo_self = object_new demo_vault ''qa'' 0"

text \<open>
  An object whose credential has expired, with handles built from the old keys in its three
  caches, and the same object with a credential that is still good.
\<close>

definition old_handle :: "kind \<Rightarrow> string \<Rightarrow> string \<Rightarrow> handle" where
  "old_handle k svc region = boto3 k svc (Some ''old-key'') (Some ''old-secret'') region []"

definition stale_self :: "cred EC2" where
  "stale_self =
     \<lparr>oid = 0,
      EC2__credentials = \<lparr>cred_namespace = ''qa'', lease = 0, stale = True\<rparr>,
      EC2__ec2_client = [''eu-central-1'' \<mapsto> old_handle Client ''ec2'' ''eu-central-1'',
                         ''us-east-1'' \<mapsto> old_handle Client ''ec2'' ''us-east-1''],
      EC2__eks_client = [''us-east-1'' \<mapsto> old_handle Client ''eks'' ''us-east-1''],
      EC2__ec2_resource = [''eu-central-1'' \<mapsto> old_handle Resource ''ec2'' ''eu-central-1''],
      EC2__secret = Some ''old-secret'',
      EC2__key = Some ''old-key''\<rparr>"

definition warm_self :: "cred EC2" where
  "warm_self = stale_self\<lparr>EC2__credentials := \<lparr>cred_namespace = ''qa'', lease = 0, stale = False\<rparr>\<rparr>"

text \<open>
  Stand-ins for the inherited methods: a name parses when it starts with \<^verbatim>\<open>openqa-SLES\<close>,
  and the last image of the list is the one to keep.
\<close>

definition demo_provider :: "string provider" where
  "demo_provider =
     \<lparr>parse_image_name_helper =
        (\<lambda>img_name rs. if take 11 img_name = ''openqa-SLES''
                        then Some [(''key'', take 17 img_name), (''build'', drop 17 img_name)]
                        else None),
      get_keeping_image_names = (\<lambda>images. if images = [] then {} else {image_name (last images)}),
      parse = (\<lambda>s. if s = [] then Inl (Exception ''ParserError'') else Inr s)\<rparr>"

section \<open>A caller of the getters and of the credential check\<close>









section \<open>A program that constructs providers\<close>





section \<open>Properties\<close>

subsection \<open>Traces and frames of the building blocks\<close>

lemma probes_simps [simp]:
  "probes [] = []"
  "probes (evs @ evs') = probes evs @ probes evs'"
  "probes (e # evs) = (case e of DescribeRegions h r \<Rightarrow> [r] | _ \<Rightarrow> []) @ probes evs"
  by (simp_all add: probes_def)

lemma sleeps_simps [simp]:
  "sleeps [] = []"
  "sleeps (evs @ evs') = sleeps evs @ sleeps evs'"
  "sleeps (e # evs) = (case e of Sleep n \<Rightarrow> [n] | _ \<Rightarrow> []) @ sleeps evs"
  by (simp_all add: sleeps_def)

lemma ec2_client_cases:
  "ec2_client E region self tr = (Inr c, self1, tr1) \<Longrightarrow>
     (EC2__ec2_client self region = Some c \<and> self1 = self \<and> tr1 = tr) \<or>
     (EC2__ec2_client self region = None \<and>
      c = boto3 Client ''ec2'' (EC2__key self) (EC2__secret self) region tr \<and>
      self1 = self\<lparr>EC2__ec2_client := (EC2__ec2_client self)(region \<mapsto> c)\<rparr> \<and>
      tr1 = tr @ [Boto3 c])"
  by (auto simp: ec2_client_def Let_def split: option.splits)

lemma ec2_client_default:
  "\<exists>c self1 tr1. ec2_client E default_region self tr = (Inr c, self1, tr1)"
  by (simp add: ec2_client_def region_error_def Let_def split: option.splits)

lemma all_regions_cases:
  "all_regions E self tr = (r, self1, tr1) \<Longrightarrow>
     \<exists>c tr0. ec2_client E default_region self tr = (Inr c, self1, tr0) \<and>
       tr1 = tr0 @ [DescribeRegions c (describe_regions E tr0 c)] \<and>
       r = map_sum id (\<lambda>resp. map RegionName (Regions resp)) (describe_regions E tr0 c)"
  using ec2_client_default [of E self tr] unfolding all_regions_def
  by (auto split: prod.splits sum.splits)

lemma all_regions_trace:
  assumes "all_regions E self tr = (r, self1, tr1)"
  shows "\<exists>evs t h. tr1 = tr @ evs \<and> probes evs = [describe_regions E t h] \<and> sleeps evs = [] \<and>
           isl (describe_regions E t h) = isl r"
proof -
  from all_regions_cases [OF assms] obtain c tr0 where
    c: "ec2_client E default_region self tr = (Inr c, self1, tr0)" and
    t: "tr1 = tr0 @ [DescribeRegions c (describe_regions E tr0 c)]" and
    r: "r = map_sum id (\<lambda>resp. map RegionName (Regions resp)) (describe_regions E tr0 c)"
    by blast
  have i: "isl (describe_regions E tr0 c) = isl r"
    unfolding r by (cases "describe_regions E tr0 c") simp_all
  from ec2_client_cases [OF c] have "tr0 = tr \<or> tr0 = tr @ [Boto3 c]" by blast
  then show ?thesis
  proof
    assume "tr0 = tr"
    with t i show ?thesis
      by (intro exI [of _ "[DescribeRegions c (describe_regions E tr0 c)]"]
                exI [of _ tr0] exI [of _ c]) simp
  next
    assume "tr0 = tr @ [Boto3 c]"
    with t i show ?thesis
      by (intro exI [of _ "[Boto3 c, DescribeRegions c (describe_regions E tr0 c)]"]
                exI [of _ tr0] exI [of _ c]) simp
  qed
qed

lemma all_regions_self:
  assumes "all_regions E self tr = (r, self1, tr1)"
  shows "(EC2__ec2_client self default_region \<noteq> None \<and> self1 = self) \<or>
         (EC2__ec2_client self default_region = None \<and>
          self1 = self\<lparr>EC2__ec2_client := (EC2__ec2_client self)(default_region \<mapsto>
                    boto3 Client ''ec2'' (EC2__key self) (EC2__secret self) default_region tr)\<rparr>)"
proof -
  from all_regions_cases [OF assms] obtain c tr0 where
    "ec2_client E default_region self tr = (Inr c, self1, tr0)" by blast
  from ec2_client_cases [OF this] show ?thesis by auto
qed

lemma probe_loop_trace:
  "probe_loop E V xs self tr = (b, self1, tr1) \<Longrightarrow>
     \<exists>evs. tr1 = tr @ evs \<and> length (probes evs) \<le> length xs \<and>
       b = (\<exists>p\<in>set (probes evs). \<not> isl p) \<and>
       (\<not> b \<longrightarrow> length (probes evs) = length xs) \<and>
       sleeps evs = replicate (length (filter isl (probes evs))) 1 \<and>
       (\<forall>p\<in>set (probes evs). \<exists>t h. p = describe_regions E t h)"
proof (induction xs arbitrary: self tr)
  case Nil
  then show ?case by simp
next
  case (Cons i rest)
  obtain r s0 t0 where ar: "all_regions E self tr = (r, s0, t0)"
    by (cases "all_regions E self tr") auto
  from all_regions_trace [OF ar] obtain evs0 p where
    e0: "t0 = tr @ evs0" "probes evs0 = [p]" "sleeps evs0 = []" "isl p = isl r"
        "\<exists>t h. p = describe_regions E t h"
    by metis
  show ?case
  proof (cases r)
    case (Inr regions)
    with Cons.prems ar have "b" "tr1 = t0" by auto
    with e0 Inr show ?thesis by (intro exI [of _ evs0]) auto
  next
    case (Inl e)
    let ?lg = "[Log INFO ''check_credentials (attemp:%d) with key %s expiring at %s ''
                      [PInt (int i), pystr (EC2__key s0),
                       PStr (getAuthExpire V (EC2__credentials s0))],
                    Sleep 1]"
    from Cons.prems ar Inl have "probe_loop E V rest s0 (t0 @ ?lg) = (b, self1, tr1)"
      by simp
    from Cons.IH [OF this] obtain evs where
      ih: "tr1 = (t0 @ ?lg) @ evs" "length (probes evs) \<le> length rest"
          "b = (\<exists>p\<in>set (probes evs). \<not> isl p)"
          "\<not> b \<longrightarrow> length (probes evs) = length rest"
          "sleeps evs = replicate (length (filter isl (probes evs))) 1"
          "\<forall>p\<in>set (probes evs). \<exists>t h. p = describe_regions E t h"
      by blast
    from e0 Inl have pl: "isl p" by simp
    show ?thesis
      using ih e0 pl
      by (intro exI [of _ "evs0 @ ?lg @ evs"]) auto
  qed
qed

lemma probe_loop_self:
  "probe_loop E V xs self tr = (b, self1, tr1) \<Longrightarrow>
     self1 = self \<or>
     (EC2__ec2_client self default_region = None \<and>
      (\<exists>t. self1 = self\<lparr>EC2__ec2_client := (EC2__ec2_client self)(default_region \<mapsto>
                    boto3 Client ''ec2'' (EC2__key self) (EC2__secret self) default_region t)\<rparr>))"
proof (induction xs arbitrary: self tr)
  case Nil
  then show ?case by simp
next
  case (Cons i rest)
  obtain r s0 t0 where ar: "all_regions E self tr = (r, s0, t0)"
    by (cases "all_regions E self tr") auto
  have s0: "s0 = self \<or>
     (EC2__ec2_client self default_region = None \<and>
      (\<exists>t. s0 = self\<lparr>EC2__ec2_client := (EC2__ec2_client self)(default_region \<mapsto>
                    boto3 Client ''ec2'' (EC2__key self) (EC2__secret self) default_region t)\<rparr>))"
    using all_regions_self [OF ar] by blast
  have n0: "EC2__ec2_client s0 default_region \<noteq> None"
    using all_regions_self [OF ar] by auto
  show ?case
  proof (cases r)
    case (Inr regions)
    with Cons.prems ar have "self1 = s0" by auto
    with s0 show ?thesis by blast
  next
    case (Inl e)
    with Cons.prems ar obtain t where "probe_loop E V rest s0 t = (b, self1, tr1)"
      by simp
    from Cons.IH [OF this] n0 have "self1 = s0" by blast
    with s0 show ?thesis by blast
  qed
qed

lemma all_regions_asked:
  assumes "all_regions E self tr = (r, self1, tr1)"
  shows "\<exists>evs t h. tr1 = tr @ evs \<and> probes evs = [describe_regions E t h] \<and>
           probes t = probes tr \<and>
           r = map_sum id (\<lambda>resp. map RegionName (Regions resp)) (describe_regions E t h)"
proof -
  from all_regions_cases [OF assms] obtain c tr0 where
    c: "ec2_client E default_region self tr = (Inr c, self1, tr0)" and
    t: "tr1 = tr0 @ [DescribeRegions c (describe_regions E tr0 c)]" and
    r: "r = map_sum id (\<lambda>resp. map RegionName (Regions resp)) (describe_regions E tr0 c)"
    by blast
  from ec2_client_cases [OF c] have "tr0 = tr \<or> tr0 = tr @ [Boto3 c]" by blast
  then show ?thesis
  proof
    assume "tr0 = tr"
    with t r show ?thesis
      by (intro exI [of _ "[DescribeRegions c (describe_regions E tr0 c)]"]
                exI [of _ tr0] exI [of _ c]) simp
  next
    assume "tr0 = tr @ [Boto3 c]"
    with t r show ?thesis
      by (intro exI [of _ "[Boto3 c, DescribeRegions c (describe_regions E tr0 c)]"]
                exI [of _ tr0] exI [of _ c]) simp
  qed
qed

lemma probe_loop_asked:
  "probe_loop E V xs self tr = (b, self1, tr @ evs) \<Longrightarrow>
     \<forall>p\<in>set (probes evs). \<exists>t h. p = describe_regions E t h \<and>
        length (probes t) < length (probes tr) + length xs"
proof (induction xs arbitrary: self tr evs)
  case Nil
  then show ?case by simp
next
  case (Cons i rest)
  obtain r s0 t0 where ar: "all_regions E self tr = (r, s0, t0)"
    by (cases "all_regions E self tr") auto
  from all_regions_asked [OF ar] obtain evs0 t h where
    e0: "t0 = tr @ evs0" "probes evs0 = [describe_regions E t h]" "probes t = probes tr"
    by blast
  show ?case
  proof (cases r)
    case (Inr regions)
    with Cons.prems ar have "tr @ evs = t0" by auto
    with e0 have "probes evs = [describe_regions E t h]" by simp
    with e0 show ?thesis by auto
  next
    case (Inl e)
    let ?lg = "[Log INFO ''check_credentials (attemp:%d) with key %s expiring at %s ''
                      [PInt (int i), pystr (EC2__key s0),
                       PStr (getAuthExpire V (EC2__credentials s0))],
                    Sleep 1]"
    from Cons.prems ar Inl have l: "probe_loop E V rest s0 (t0 @ ?lg) = (b, self1, tr @ evs)"
      by simp
    from probe_loop_trace [OF l] obtain evs1 where e1: "tr @ evs = (t0 @ ?lg) @ evs1"
      by blast
    with e0 have ev: "evs = evs0 @ ?lg @ evs1" by simp
    from l e1 have "probe_loop E V rest s0 (t0 @ ?lg) = (b, self1, (t0 @ ?lg) @ evs1)"
      by simp
    from Cons.IH [OF this] have
      "\<forall>p\<in>set (probes evs1). \<exists>t h. p = describe_regions E t h \<and>
          length (probes t) < length (probes (t0 @ ?lg)) + length rest" .
    moreover have "length (probes (t0 @ ?lg)) = Suc (length (probes tr))"
      using e0 by simp
    ultimately have
      "\<forall>p\<in>set (probes evs1). \<exists>t h. p = describe_regions E t h \<and>
          length (probes t) < length (probes tr) + length (i # rest)"
      by simp
    moreover have "\<exists>t' h'. describe_regions E t h = describe_regions E t' h' \<and>
          length (probes t') < length (probes tr) + length (i # rest)"
      using e0 by (intro exI [of _ t] exI [of _ h]) simp
    ultimately show ?thesis
      unfolding ev using e0 by auto
  qed
qed

lemma check_credentials_unfold:
  assumes "probe_loop E V [1..<60 * 5] (read_keys V (renew_expired V self)) tr = (b, self1, tr1)"
  shows "check_credentials E V self tr =
           (if b then (Inr (Some True), self1, tr1)
            else (case all_regions E self1 tr1 of
                    (r, self2, tr2) \<Rightarrow> (case r of Inl e \<Rightarrow> Inl e | Inr regions \<Rightarrow> Inr None, self2, tr2)))"
  using assms by (auto simp: check_credentials_def split: prod.splits sum.splits)

lemma range_length: "length [1..<60 * 5::nat] = 299"
  by simp

lemma aws_down_regions [simp]: "describe_regions aws_down t h = Inl (Exception ''AuthFailure'')"
  by (simp add: aws_down_def)

lemma demo_aws_regions:
  "describe_regions (demo_aws n) t h =
     (if length (probes t) < n then Inl (Exception ''AuthFailure'') else Inr demo_regions)"
  by (simp add: demo_aws_def)

lemma read_keys_fields:
  "EC2__ec2_client (read_keys V s) = EC2__ec2_client s"
  "EC2__eks_client (read_keys V s) = EC2__eks_client s"
  "EC2__ec2_resource (read_keys V s) = EC2__ec2_resource s"
  "oid (read_keys V s) = oid s"
  "EC2__secret (read_keys V s) = Some (fst (getData V ''secret_key'' (EC2__credentials s)))"
  "EC2__key (read_keys V s) =
     Some (fst (getData V ''access_key'' (snd (getData V ''secret_key'' (EC2__credentials s)))))"
  "EC2__credentials (read_keys V s) =
     snd (getData V ''access_key'' (snd (getData V ''secret_key'' (EC2__credentials s))))"
  by (simp_all add: read_keys_def split: prod.splits)

text \<open>What the probes of a whole check do to the object: at most one handle is added.\<close>

lemma check_credentials_self:
  assumes "check_credentials E V self tr = (r, self', tr')"
  shows "self' = read_keys V (renew_expired V self) \<or>
     (EC2__ec2_client (read_keys V (renew_expired V self)) default_region = None \<and>
      (\<exists>t. self' = (read_keys V (renew_expired V self))
               \<lparr>EC2__ec2_client := (EC2__ec2_client (read_keys V (renew_expired V self)))(default_region \<mapsto>
                    boto3 Client ''ec2'' (EC2__key (read_keys V (renew_expired V self)))
                      (EC2__secret (read_keys V (renew_expired V self))) default_region t)\<rparr>))"
proof -
  let ?s = "read_keys V (renew_expired V self)"
  obtain b self1 tr1 where l: "probe_loop E V [1..<60 * 5] ?s tr = (b, self1, tr1)"
    by (metis prod_cases3)
  note s1 = probe_loop_self [OF l]
  show ?thesis
  proof (cases b)
    case True
    with check_credentials_unfold [OF l] assms have "self' = self1" by simp
    with s1 show ?thesis by blast
  next
    case False
    obtain r2 self2 tr2 where a: "all_regions E self1 tr1 = (r2, self2, tr2)"
      by (metis prod_cases3)
    with check_credentials_unfold [OF l] assms False have e: "self' = self2" by simp
    from all_regions_self [OF a] s1 show ?thesis
      unfolding e by (elim disjE conjE exE) (simp_all, blast+)
  qed
qed

lemma probe_loop_cached:
  "probe_loop E V xs self tr = (b, self1, tr1) \<Longrightarrow> xs \<noteq> [] \<Longrightarrow>
     EC2__ec2_client self1 default_region \<noteq> None"
proof (induction xs arbitrary: self tr)
  case Nil
  then show ?case by simp
next
  case (Cons i rest)
  obtain r s0 t0 where ar: "all_regions E self tr = (r, s0, t0)"
    by (cases "all_regions E self tr") auto
  have n0: "EC2__ec2_client s0 default_region \<noteq> None"
    using all_regions_self [OF ar] by auto
  show ?case
  proof (cases r)
    case (Inr regions)
    with Cons.prems ar have "self1 = s0" by auto
    with n0 show ?thesis by simp
  next
    case (Inl e)
    with Cons.prems ar obtain t where l: "probe_loop E V rest s0 t = (b, self1, tr1)"
      by simp
    from probe_loop_self [OF l] n0 have "self1 = s0" by blast
    with n0 show ?thesis by simp
  qed
qed

lemma check_credentials_cached:
  assumes "check_credentials E V self tr = (r, self', tr')"
  shows "EC2__ec2_client self' default_region \<noteq> None"
proof -
  let ?s = "read_keys V (renew_expired V self)"
  obtain b self1 tr1 where l: "probe_loop E V [1..<60 * 5] ?s tr = (b, self1, tr1)"
    by (metis prod_cases3)
  have c1: "EC2__ec2_client self1 default_region \<noteq> None"
    by (rule probe_loop_cached [OF l]) simp
  show ?thesis
  proof (cases b)
    case True
    with check_credentials_unfold [OF l] assms have "self' = self1" by simp
    with c1 show ?thesis by simp
  next
    case False
    obtain r2 self2 tr2 where a: "all_regions E self1 tr1 = (r2, self2, tr2)"
      by (metis prod_cases3)
    with check_credentials_unfold [OF l] assms False have e: "self' = self2" by simp
    from all_regions_self [OF a] c1 show ?thesis
      unfolding e by auto
  qed
qed

lemma renew_expired_fields:
  "isExpired V (EC2__credentials s) \<Longrightarrow>
     EC2__credentials (renew_expired V s) = renew V (EC2__credentials s) \<and>
     EC2__ec2_resource (renew_expired V s) = Map.empty \<and>
     EC2__ec2_client (renew_expired V s) = Map.empty \<and>
     EC2__eks_client (renew_expired V s) = Map.empty \<and>
     EC2__key (renew_expired V s) = None \<and>
     EC2__secret (renew_expired V s) = None"
  "\<not> isExpired V (EC2__credentials s) \<Longrightarrow> renew_expired V s = s"
  by (simp_all add: renew_expired_def)

lemma run_collapse: "f = (fst f, fst (snd f), snd (snd f))"
  by simp







lemma cluster_answers_simps [simp]:
  "cluster_answers [] = []"
  "cluster_answers (evs @ evs') = cluster_answers evs @ cluster_answers evs'"
  "cluster_answers (e # evs) = (case e of ListClusters h r \<Rightarrow> [(h, r)] | _ \<Rightarrow> []) @ cluster_answers evs"
  by (simp_all add: cluster_answers_def)

lemma eks_client_cases:
  assumes "eks_client E region self tr = (Inr c, self1, tr1)"
  shows "EC2__eks_client self1 region = Some c \<and>
         (\<forall>r h. EC2__eks_client self r = Some h \<longrightarrow> EC2__eks_client self1 r = Some h) \<and>
         (tr1 = tr \<or> tr1 = tr @ [Boto3 c])"
  using assms by (auto simp: eks_client_def Let_def split: option.splits)

lemma eks_client_raises:
  assumes "eks_client E region self tr = (Inl e, self1, tr1)"
  shows "self1 = self \<and> tr1 = tr \<and> EC2__eks_client self region = None \<and>
         region_error E region = Some e"
  using assms by (auto simp: eks_client_def Let_def split: option.splits)

lemma eks_client_returns:
  assumes "region_error E region = None \<or> EC2__eks_client self region \<noteq> None"
  shows "\<exists>c self1 tr1. eks_client E region self tr = (Inr c, self1, tr1)"
  using assms by (auto simp: eks_client_def Let_def split: option.splits)

lemma clusters_loop_keeps:
  "clusters_loop E regions cs0 self tr = (r, self', tr') \<Longrightarrow>
     EC2__eks_client self region = Some h \<Longrightarrow> EC2__eks_client self' region = Some h"
proof (induction regions arbitrary: cs0 self tr)
  case Nil
  then show ?case by simp
next
  case (Cons x rest)
  obtain rc s1 t1 where e0: "eks_client E x self tr = (rc, s1, t1)"
    by (metis prod_cases3)
  show ?case
  proof (cases rc)
    case (Inl ex)
    with eks_client_raises e0 have "s1 = self" by blast
    with Cons.prems e0 Inl show ?thesis by simp
  next
    case (Inr c)
    with e0 have e: "eks_client E x self tr = (Inr c, s1, t1)" by simp
    from eks_client_cases [OF e] Cons.prems(2) have k: "EC2__eks_client s1 region = Some h"
      by blast
    show ?thesis
    proof (cases "list_clusters E t1 c")
      case (Inl ex)
      with Cons.prems(1) e have "self' = s1" by simp
      with k show ?thesis by simp
    next
      case (Inr response)
      with Cons.prems(1) e obtain cs1 t2 where "clusters_loop E rest cs1 s1 t2 = (r, self', tr')"
        by simp
      from Cons.IH [OF this k] show ?thesis .
    qed
  qed
qed

lemma clusters_loop_answers:
  "clusters_loop E regions cs0 self tr = (Inr cs, self', tr') \<Longrightarrow>
     \<exists>evs hs resps. tr' = tr @ evs \<and> cluster_answers evs = zip hs (map Inr resps) \<and>
        length hs = length regions \<and> length resps = length regions \<and>
        (\<forall>j<length regions. EC2__eks_client self' (regions ! j) = Some (hs ! j) \<and>
            (\<exists>t. list_clusters E t (hs ! j) = Inr (resps ! j))) \<and>
        cs = cs0 @ concat (map clusters resps)"
proof (induction regions arbitrary: cs0 self tr)
  case Nil
  then show ?case by simp
next
  case (Cons x rest)
  obtain rc s1 t1 where e0: "eks_client E x self tr = (rc, s1, t1)"
    by (metis prod_cases3)
  with Cons.prems obtain c where e: "eks_client E x self tr = (Inr c, s1, t1)"
    by (cases rc) auto
  note ec = eks_client_cases [OF e]
  show ?case
  proof (cases "list_clusters E t1 c")
    case (Inl ex)
    with Cons.prems e show ?thesis by simp
  next
    case (Inr response)
    let ?t2 = "t1 @ [ListClusters c (Inr response)]"
    from Inr Cons.prems e have
      l: "clusters_loop E rest (cs0 @ clusters response) s1 ?t2 = (Inr cs, self', tr')"
      by simp
    from Cons.IH [OF l] obtain evs hs resps where
      ih: "tr' = ?t2 @ evs" "cluster_answers evs = zip hs (map Inr resps)"
          "length hs = length rest" "length resps = length rest"
          "\<forall>j<length rest. EC2__eks_client self' (rest ! j) = Some (hs ! j) \<and>
              (\<exists>t. list_clusters E t (hs ! j) = Inr (resps ! j))"
          "cs = (cs0 @ clusters response) @ concat (map clusters resps)"
      by blast
    from ec obtain pre where pre: "t1 = tr @ pre" "cluster_answers pre = []"
      by (elim conjE disjE) (force intro: that [of "[]"], force intro: that [of "[Boto3 c]"])
    from clusters_loop_keeps [OF l] ec have k: "EC2__eks_client self' x = Some c"
      by blast
    have idx: "\<forall>j<length (x # rest). EC2__eks_client self' ((x # rest) ! j) = Some ((c # hs) ! j) \<and>
            (\<exists>t. list_clusters E t ((c # hs) ! j) = Inr ((response # resps) ! j))"
    proof (intro allI impI)
      fix j assume j: "j < length (x # rest)"
      show "EC2__eks_client self' ((x # rest) ! j) = Some ((c # hs) ! j) \<and>
            (\<exists>t. list_clusters E t ((c # hs) ! j) = Inr ((response # resps) ! j))"
      proof (cases j)
        case 0
        with k Inr show ?thesis by auto
      next
        case (Suc i)
        with j ih(5) show ?thesis by simp
      qed
    qed
    show ?thesis
      using ih pre idx
      by (intro exI [of _ "pre @ ListClusters c (Inr response) # evs"]
                exI [of _ "c # hs"] exI [of _ "response # resps"]) simp
  qed
qed

lemma clusters_loop_returns:
  "\<forall>t h. \<not> isl (list_clusters E t h) \<Longrightarrow>
   \<forall>region\<in>set regions. region_error E region = None \<or> EC2__eks_client self region \<noteq> None \<Longrightarrow>
     \<exists>cs self' tr'. clusters_loop E regions cs0 self tr = (Inr cs, self', tr')"
proof (induction regions arbitrary: cs0 self tr)
  case Nil
  then show ?case by simp
next
  case (Cons x rest)
  from Cons.prems(2) have "region_error E x = None \<or> EC2__eks_client self x \<noteq> None"
    by simp
  from eks_client_returns [OF this] obtain c s1 t1 where
    e: "eks_client E x self tr = (Inr c, s1, t1)"
    by blast
  from Cons.prems have "\<not> isl (list_clusters E t1 c)" by blast
  then obtain response where r: "list_clusters E t1 c = Inr response"
    by (cases "list_clusters E t1 c") auto
  have "\<forall>region\<in>set rest. region_error E region = None \<or> EC2__eks_client s1 region \<noteq> None"
    using Cons.prems(2) eks_client_cases [OF e] by fastforce
  from Cons.IH [OF Cons.prems(1) this] e r show ?case by simp
qed

lemma demo_aws_lists [simp]: "\<not> isl (list_clusters (demo_aws n) t h)"
  by (simp add: demo_aws_def)

lemma terminated_simps [simp]:
  "terminated [] = []"
  "terminated (evs @ evs') = terminated evs @ terminated evs'"
  "terminated (e # evs) = (case e of Terminate i r \<Rightarrow> [i] | _ \<Rightarrow> []) @ terminated evs"
  by (simp_all add: terminated_def)

lemma logged_simps [simp]:
  "logged l [] = []"
  "logged l (evs @ evs') = logged l evs @ logged l evs'"
  "logged l (e # evs) = (case e of Log l' f a \<Rightarrow> (if l' = l then [(f, a)] else []) | _ \<Rightarrow> []) @ logged l evs"
  by (simp_all add: logged_def)

lemma ec2_resource_cases:
  assumes "ec2_resource E region self tr = (Inr c, self1, tr1)"
  shows "EC2__ec2_resource self1 region = Some c \<and> (tr1 = tr \<or> tr1 = tr @ [Boto3 c])"
  using assms by (auto simp: ec2_resource_def Let_def split: option.splits)

lemma ec2_resource_default:
  "\<exists>c self1 tr1. ec2_resource E default_region self tr = (Inr c, self1, tr1)"
  by (simp add: ec2_resource_def region_error_def Let_def split: option.splits)

lemma deregister_requests_simps [simp]:
  "deregister_requests [] = []"
  "deregister_requests (evs @ evs') = deregister_requests evs @ deregister_requests evs'"
  "deregister_requests (e # evs) =
     (case e of DeregisterImage h i dry r \<Rightarrow> [(i, dry, r)] | _ \<Rightarrow> []) @ deregister_requests evs"
  by (simp_all add: deregister_requests_def)

lemma deregistered_simps [simp]:
  "deregistered [] = []"
  "deregistered (evs @ evs') = deregistered evs @ deregistered evs'"
  by (simp_all add: deregistered_def)

lemma deregistered_none: "deregister_requests evs = [] \<Longrightarrow> deregistered evs = []"
  by (simp add: deregistered_def)

lemma collect_images_trace:
  "collect_images V P self imgs images tr = (r, tr') \<Longrightarrow>
     \<exists>evs. tr' = tr @ evs \<and> deregister_requests evs = [] \<and>
       (\<forall>images'. r = Inr images' \<longrightarrow>
          (\<exists>new. images' = images @ new \<and>
             list_all2 (built_from P) [e \<leftarrow> imgs. truthy (parse_image_name P (Name e))] new) \<and>
          logged ERROR evs = map (unparsed V self) [e \<leftarrow> imgs. \<not> truthy (parse_image_name P (Name e))])"
proof (induction imgs arbitrary: images tr)
  case Nil
  then show ?case by auto
next
  case (Cons img rest)
  let ?m = "parse_image_name P (Name img)"
  show ?case
  proof (cases "truthy ?m")
    case False
    let ?e = "Log ERROR (''[{}] Unable to parse image name '{}'' @ [CHR 0x27])
                      [PStr (namespace V (EC2__credentials self)), PStr (Name img)]"
    from False Cons.prems have "collect_images V P self rest images (tr @ [?e]) = (r, tr')"
      by (simp add: Let_def)
    from Cons.IH [OF this] obtain evs where
      ih: "tr' = (tr @ [?e]) @ evs" "deregister_requests evs = []"
          "\<forall>images'. r = Inr images' \<longrightarrow>
          (\<exists>new. images' = images @ new \<and>
             list_all2 (built_from P) [e \<leftarrow> rest. truthy (parse_image_name P (Name e))] new) \<and>
          logged ERROR evs = map (unparsed V self) [e \<leftarrow> rest. \<not> truthy (parse_image_name P (Name e))]"
      by blast
    show ?thesis
      using ih False
      by (intro exI [of _ "?e # evs"]) (simp add: unparsed_def)
  next
    case True
    show ?thesis
    proof (cases "getitem ?m ''build''")
      case (Inl e)
      with True Cons.prems show ?thesis by (auto simp: Let_def)
    next
      case b: (Inr b)
      let ?d = "Log DEBUG ''[{}]Image {} is candidate for deletion with build {}''
                  [PStr (namespace V (EC2__credentials self)), PStr (Name img), PStr b]"
      show ?thesis
      proof (cases "getitem ?m ''key''")
        case (Inl e)
        with True b Cons.prems have "r = Inl e" "tr' = tr @ [?d]" by (auto simp: Let_def)
        then show ?thesis by (intro exI [of _ "[?d]"]) simp
      next
        case k: (Inr k)
        show ?thesis
        proof (cases "parse P (CreationDate img)")
          case (Inl e)
          with True b k Cons.prems have "r = Inl e" "tr' = tr @ [?d]" by (auto simp: Let_def)
          then show ?thesis by (intro exI [of _ "[?d]"]) simp
        next
          case d: (Inr d)
          let ?i = "\<lparr>image_name = Name img, image_flavor = k, image_build = b,
                     image_date = d, image_id = ImageId img\<rparr>"
          from True b k d Cons.prems have
            "collect_images V P self rest (images @ [?i]) (tr @ [?d]) = (r, tr')"
            by (simp add: Let_def)
          from Cons.IH [OF this] obtain evs where
            ih: "tr' = (tr @ [?d]) @ evs" "deregister_requests evs = []"
              "\<forall>images'. r = Inr images' \<longrightarrow>
                (\<exists>new. images' = (images @ [?i]) @ new \<and>
                  list_all2 (built_from P) [e \<leftarrow> rest. truthy (parse_image_name P (Name e))] new) \<and>
                logged ERROR evs = map (unparsed V self) [e \<leftarrow> rest. \<not> truthy (parse_image_name P (Name e))]"
            by blast
          have bf: "built_from P img ?i"
            using b k d by (simp add: built_from_def)
          have "\<forall>images'. r = Inr images' \<longrightarrow>
                (\<exists>new. images' = images @ new \<and>
                  list_all2 (built_from P) [e \<leftarrow> img # rest. truthy (parse_image_name P (Name e))] new) \<and>
                logged ERROR (?d # evs) = map (unparsed V self) [e \<leftarrow> img # rest. \<not> truthy (parse_image_name P (Name e))]"
          proof (intro allI impI)
            fix images' assume "r = Inr images'"
            with ih(3) obtain new where n: "images' = (images @ [?i]) @ new"
              "list_all2 (built_from P) [e \<leftarrow> rest. truthy (parse_image_name P (Name e))] new"
              "logged ERROR evs = map (unparsed V self) [e \<leftarrow> rest. \<not> truthy (parse_image_name P (Name e))]"
              by blast
            from n bf True have "images' = images @ (?i # new) \<and>
                  list_all2 (built_from P) [e \<leftarrow> img # rest. truthy (parse_image_name P (Name e))] (?i # new)"
              by simp
            then have "\<exists>new. images' = images @ new \<and>
                  list_all2 (built_from P) [e \<leftarrow> img # rest. truthy (parse_image_name P (Name e))] new"
              by blast
            with n(3) True show "(\<exists>new. images' = images @ new \<and>
                  list_all2 (built_from P) [e \<leftarrow> img # rest. truthy (parse_image_name P (Name e))] new) \<and>
                logged ERROR (?d # evs) = map (unparsed V self) [e \<leftarrow> img # rest. \<not> truthy (parse_image_name P (Name e))]"
              by simp
          qed
          with ih(1,2) show ?thesis
            by (intro exI [of _ "?d # evs"]) simp
        qed
      qed
    qed
  qed
qed

lemma collect_images_returns:
  "\<forall>e\<in>set imgs. truthy (parse_image_name P (Name e)) \<longrightarrow>
      \<not> isl (getitem (parse_image_name P (Name e)) ''build'') \<and>
      \<not> isl (getitem (parse_image_name P (Name e)) ''key'') \<and>
      \<not> isl (parse P (CreationDate e)) \<Longrightarrow>
   \<exists>images' tr'. collect_images V P self imgs images tr = (Inr images', tr')"
proof (induction imgs arbitrary: images tr)
  case Nil
  then show ?case by simp
next
  case (Cons img rest)
  let ?m = "parse_image_name P (Name img)"
  from Cons.prems have rest: "\<forall>e\<in>set rest. truthy (parse_image_name P (Name e)) \<longrightarrow>
      \<not> isl (getitem (parse_image_name P (Name e)) ''build'') \<and>
      \<not> isl (getitem (parse_image_name P (Name e)) ''key'') \<and>
      \<not> isl (parse P (CreationDate e))"
    by simp
  show ?case
  proof (cases "truthy ?m")
    case False
    with Cons.IH [OF rest] show ?thesis by (simp add: Let_def)
  next
    case True
    with Cons.prems obtain b k d where
      "getitem ?m ''build'' = Inr b" "getitem ?m ''key'' = Inr k" "parse P (CreationDate img) = Inr d"
      by (cases "getitem ?m ''build''"; cases "getitem ?m ''key''"; cases "parse P (CreationDate img)") auto
    with True Cons.IH [OF rest] show ?thesis by (simp add: Let_def)
  qed
qed

lemma deregister_images_trace:
  "deregister_images E imgs self tr = (r, self', tr') \<Longrightarrow>
     \<exists>evs k. tr' = tr @ evs \<and> logged ERROR evs = [] \<and>
       deregistered evs = map image_id (take k imgs) \<and>
       (\<forall>q\<in>set (deregister_requests evs). \<not> fst (snd q) \<and> fst q \<in> image_id ` set imgs) \<and>
       (r = Inr () \<longrightarrow> deregister_requests evs = map (\<lambda>i. (image_id i, False, Inr ())) imgs \<and>
                        deregistered evs = map image_id imgs) \<and>
       ((\<forall>t h i. \<not> isl (deregister_image E t h i False)) \<longrightarrow> r = Inr ())"
proof (induction imgs arbitrary: self tr)
  case Nil
  then show ?case by auto
next
  case (Cons img rest)
  let ?l = "Log INFO ''Delete image '{}' (ami:{})'' [PStr (image_name img), PStr (image_id img)]"
  from ec2_client_default obtain c s1 t2 where
    e: "ec2_client E default_region self (tr @ [?l]) = (Inr c, s1, t2)"
    by blast
  from ec2_client_cases [OF e] obtain pre where
    pre: "t2 = tr @ pre" "deregister_requests pre = []" "logged ERROR pre = []"
    by (elim conjE disjE) (force intro: that [of "[?l]"], force intro: that [of "[?l, Boto3 c]"])
  note dp = deregistered_none [OF pre(2)]
  show ?case
  proof (cases "deregister_image E t2 c (image_id img) False")
    case (Inl ex)
    let ?q = "DeregisterImage c (image_id img) False (Inl ex)"
    from Inl Cons.prems e have r: "r = Inl ex" and t: "tr' = t2 @ [?q]"
      by (auto simp: Let_def)
    have d: "deregistered (pre @ [?q]) = map image_id (take 0 (img # rest))"
      using dp by (simp add: deregistered_def)
    have n: "\<not> (\<forall>t h i. \<not> isl (deregister_image E t h i False))"
      using Inl by (metis isl_def)
    from r t pre d n show ?thesis
      by (intro exI [of _ "pre @ [?q]"] exI [of _ 0]) simp
  next
    case (Inr u)
    let ?q = "DeregisterImage c (image_id img) False (Inr u)"
    let ?t3 = "t2 @ [?q]"
    from Inr Cons.prems e have "deregister_images E rest s1 ?t3 = (r, self', tr')"
      by (simp add: Let_def)
    from Cons.IH [OF this] obtain evs k where
      ih: "tr' = ?t3 @ evs" "logged ERROR evs = []"
          "deregistered evs = map image_id (take k rest)"
          "\<forall>q\<in>set (deregister_requests evs). \<not> fst (snd q) \<and> fst q \<in> image_id ` set rest"
          "r = Inr () \<longrightarrow> deregister_requests evs = map (\<lambda>i. (image_id i, False, Inr ())) rest \<and>
                        deregistered evs = map image_id rest"
          "(\<forall>t h i. \<not> isl (deregister_image E t h i False)) \<longrightarrow> r = Inr ()"
      by blast
    have d1: "deregistered [?q] = [image_id img]"
      by (simp add: deregistered_def)
    have d: "deregistered (pre @ ?q # evs) = map image_id (take (Suc k) (img # rest))"
      using dp d1 ih(3) deregistered_simps(2) [of "[?q]" evs] by simp
    have dr: "r = Inr () \<longrightarrow> deregistered (pre @ ?q # evs) = map image_id (img # rest)"
      using dp d1 ih(5) deregistered_simps(2) [of "[?q]" evs] by simp
    from ih pre d dr show ?thesis
      by (intro exI [of _ "pre @ ?q # evs"] exI [of _ "Suc k"]) auto
  qed
qed

lemma built_from_filter:
  "list_all2 (built_from P) es is \<Longrightarrow>
     map image_id [i \<leftarrow> is. image_name i \<notin> K] = map ImageId [e \<leftarrow> es. Name e \<notin> K]"
  by (induction es "is" rule: list_all2_induct) (auto simp: built_from_def)

lemma built_from_unique:
  "list_all2 (built_from P) es is \<Longrightarrow> list_all2 (built_from P) es js \<Longrightarrow> is = js"
proof (induction es "is" arbitrary: js rule: list_all2_induct)
  case Nil
  then show ?case by simp
next
  case (Cons e es i "is")
  from Cons.prems obtain j js' where j: "js = j # js'" "built_from P e j" "list_all2 (built_from P) es js'"
    by (cases js) auto
  from Cons.hyps(1) j(2) have "i = j"
    by (simp add: built_from_def)
  with Cons.IH [OF j(3)] j(1) show ?case by simp
qed

lemma distinct_map_eq:
  "distinct (map f xs) \<Longrightarrow> x \<in> set xs \<Longrightarrow> y \<in> set xs \<Longrightarrow> f x = f y \<Longrightarrow> x = y"
  by (auto simp: distinct_map dest: inj_onD)

lemma demo_images_answer: "describe_images (demo_aws n) t h owners = Inr demo_images"
  by (simp add: demo_aws_def)

lemma demo_parse:
  "truthy (parse_image_name demo_provider img_name) = (take 11 img_name = ''openqa-SLES'')"
  by (simp add: parse_image_name_def demo_provider_def)









subsection \<open>The credential check\<close>

text \<open>
  C5. The retry loop of \<^verbatim>\<open>check_credentials\<close> ends: it is a recursion over the 299 numbers
  of \<^verbatim>\<open>range(1, 60 * 5)\<close>. Whatever the cloud answers, the loop sends at most 299
  \<^verbatim>\<open>describe_regions\<close> probes and sleeps exactly one second for each probe that failed,
  never longer. When every probe fails, the loop is left through its end after 299
  probes and 299 seconds of sleep, and \<^verbatim>\<open>check_credentials\<close> goes on to the last call of
  \<^verbatim>\<open>all_regions\<close>, in the state and with the trace the loop left.
\<close>

theorem check_credentials_loop_terminates:
  assumes "probe_loop E V [1..<60 * 5] (read_keys V (renew_expired V self)) tr = (b, self1, tr1)"
  shows "\<exists>evs. tr1 = tr @ evs \<and>
           length (probes evs) \<le> 299 \<and>
           sleeps evs = replicate (length (filter isl (probes evs))) 1 \<and>
           ((\<forall>p\<in>set (probes evs). isl p) \<longrightarrow>
              \<not> b \<and> length (probes evs) = 299 \<and> sum_list (sleeps evs) = 299 \<and>
              check_credentials E V self tr =
                (case all_regions E self1 tr1 of
                   (Inl e, self2, tr2) \<Rightarrow> (Inl e, self2, tr2)
                 | (Inr regions, self2, tr2) \<Rightarrow> (Inr None, self2, tr2)))"
proof -
  from probe_loop_trace [OF assms] obtain evs where
    e: "tr1 = tr @ evs" "length (probes evs) \<le> length [1..<60 * 5::nat]"
       "b = (\<exists>p\<in>set (probes evs). \<not> isl p)"
       "\<not> b \<longrightarrow> length (probes evs) = length [1..<60 * 5::nat]"
       "sleeps evs = replicate (length (filter isl (probes evs))) 1"
    by blast
  have "check_credentials E V self tr =
          (case all_regions E self1 tr1 of
             (Inl e, self2, tr2) \<Rightarrow> (Inl e, self2, tr2)
           | (Inr regions, self2, tr2) \<Rightarrow> (Inr None, self2, tr2))" if "\<not> b"
    using that assms by (simp add: check_credentials_def)
  moreover have "filter isl (probes evs) = probes evs" if "\<forall>p\<in>set (probes evs). isl p"
    using that by (simp add: filter_id_conv)
  ultimately show ?thesis using e
    by (intro exI [of _ evs]) (auto simp: sum_list_replicate)
qed

theorem check_credentials_loop_terminates_witness:
  "\<exists>self1 evs. probe_loop aws_down demo_vault [1..<60 * 5]
                   (read_keys demo_vault (renew_expired demo_vault demo_self)) [] = (False, self1, evs) \<and>
      (\<forall>p\<in>set (probes evs). isl p) \<and>
      length (probes evs) = 299 \<and> sleeps evs = replicate 299 1 \<and> sum_list (sleeps evs) = 299"
proof -
  obtain b self1 tr1 where
    l: "probe_loop aws_down demo_vault [1..<60 * 5]
          (read_keys demo_vault (renew_expired demo_vault demo_self)) [] = (b, self1, tr1)"
    by (metis prod_cases3)
  from probe_loop_trace [OF l] have f: "\<forall>p\<in>set (probes tr1). isl p"
    by auto
  from check_credentials_loop_terminates [OF l] f l show ?thesis
    by (auto simp: filter_id_conv)
qed

text \<open>
  C6. When every probe inside the loop raises, \<^verbatim>\<open>check_credentials\<close> has sent 299 probes
  and then calls \<^verbatim>\<open>all_regions\<close> exactly once more, in the state the loop left. That call
  is under no handler: the method ends with what the call ends with, so an exception of
  the call is the exception of \<^verbatim>\<open>check_credentials\<close>.
\<close>

theorem check_credentials_last_call_propagates:
  assumes "probe_loop E V [1..<60 * 5] (read_keys V (renew_expired V self)) tr = (b, self1, tr @ evs)"
    and "\<forall>p\<in>set (probes evs). isl p"
    and "all_regions E self1 (tr @ evs) = (r, self2, tr2)"
  shows "length (probes evs) = 299 \<and>
         (\<exists>evs2. tr2 = tr @ evs @ evs2 \<and> length (probes evs2) = 1) \<and>
         check_credentials E V self tr = (case r of Inl e \<Rightarrow> Inl e | Inr regions \<Rightarrow> Inr None, self2, tr2) \<and>
         (\<forall>e. r = Inl e \<longrightarrow> fst (check_credentials E V self tr) = Inl e)"
proof -
  from probe_loop_trace [OF assms(1)] obtain evs' where
    e: "tr @ evs = tr @ evs'" "b = (\<exists>p\<in>set (probes evs'). \<not> isl p)"
       "\<not> b \<longrightarrow> length (probes evs') = length [1..<60 * 5::nat]"
    by blast
  from e(1) have "evs' = evs" by simp
  with e assms(2) have nb: "\<not> b" and len: "length (probes evs) = 299"
    by (auto simp only: range_length)
  from all_regions_asked [OF assms(3)] obtain evs2 where
    e2: "tr2 = (tr @ evs) @ evs2" "length (probes evs2) = 1"
    by force
  have cc: "check_credentials E V self tr =
          (case r of Inl e \<Rightarrow> Inl e | Inr regions \<Rightarrow> Inr None, self2, tr2)"
    using check_credentials_unfold [OF assms(1)] nb assms(3) by simp
  from e2 have "\<exists>evs2. tr2 = tr @ evs @ evs2 \<and> length (probes evs2) = 1"
    by (intro exI [of _ evs2]) simp
  with len cc show ?thesis by simp
qed

theorem check_credentials_last_call_propagates_witness:
  "fst (check_credentials aws_down demo_vault demo_self []) = Inl (Exception ''AuthFailure'') \<and>
   length (probes (snd (snd (check_credentials aws_down demo_vault demo_self [])))) = 300"
proof -
  let ?s = "read_keys demo_vault (renew_expired demo_vault demo_self)"
  obtain b self1 evs where
    l: "probe_loop aws_down demo_vault [1..<60 * 5] ?s [] = (b, self1, [] @ evs)"
    by (metis prod_cases3 append_Nil)
  from probe_loop_trace [OF l] have f: "\<forall>p\<in>set (probes evs). isl p"
    by auto
  obtain r self2 tr2 where a: "all_regions aws_down self1 ([] @ evs) = (r, self2, tr2)"
    by (metis prod_cases3)
  from all_regions_asked [OF a] have r: "r = Inl (Exception ''AuthFailure'')"
    by auto
  from check_credentials_last_call_propagates [OF l f a] r show ?thesis
    by auto
qed

text \<open>
  C10. \<^verbatim>\<open>check_credentials\<close> returns \<^verbatim>\<open>True\<close> exactly when one of the probes inside the
  loop was answered. When all 299 probes of the loop raise and the call after the loop is
  answered, the method falls off its end and returns \<^verbatim>\<open>None\<close>, not \<^verbatim>\<open>True\<close>.
\<close>

theorem check_credentials_True_iff_probe_succeeds:
  assumes "probe_loop E V [1..<60 * 5] (read_keys V (renew_expired V self)) tr = (b, self1, tr @ evs)"
  shows "(fst (check_credentials E V self tr) = Inr (Some True)) = (\<exists>p\<in>set (probes evs). \<not> isl p) \<and>
         ((\<forall>p\<in>set (probes evs). isl p) \<and> \<not> isl (fst (all_regions E self1 (tr @ evs))) \<longrightarrow>
            length (probes evs) = 299 \<and> fst (check_credentials E V self tr) = Inr None)"
proof -
  from probe_loop_trace [OF assms] obtain evs' where
    e: "tr @ evs = tr @ evs'" "b = (\<exists>p\<in>set (probes evs'). \<not> isl p)"
       "\<not> b \<longrightarrow> length (probes evs') = length [1..<60 * 5::nat]"
    by blast
  from e(1) have "evs' = evs" by simp
  with e have b: "b = (\<exists>p\<in>set (probes evs). \<not> isl p)"
    and len: "\<not> b \<longrightarrow> length (probes evs) = 299"
    by (auto simp only: range_length)
  obtain r self2 tr2 where ar: "all_regions E self1 (tr @ evs) = (r, self2, tr2)"
    by (metis prod_cases3)
  have cc: "fst (check_credentials E V self tr) =
          (if b then Inr (Some True) else (case r of Inl e \<Rightarrow> Inl e | Inr regions \<Rightarrow> Inr None))"
    using check_credentials_unfold [OF assms] ar by simp
  have 1: "(fst (check_credentials E V self tr) = Inr (Some True)) = b"
    unfolding cc by (cases r) auto
  have 2: "fst (check_credentials E V self tr) = Inr None" if "\<not> b" "\<not> isl r"
    unfolding cc using that by (cases r) auto
  from 1 2 b len ar show ?thesis by auto
qed

theorem check_credentials_True_iff_probe_succeeds_witness:
  "fst (check_credentials (demo_aws 299) demo_vault demo_self []) = Inr None \<and>
   fst (check_credentials (demo_aws 2) demo_vault demo_self []) = Inr (Some True) \<and>
   (\<exists>b self1 evs. probe_loop (demo_aws 2) demo_vault [1..<60 * 5]
        (read_keys demo_vault (renew_expired demo_vault demo_self)) [] = (b, self1, evs) \<and>
      (\<exists>p\<in>set (probes evs). \<not> isl p))"
proof -
  let ?s = "read_keys demo_vault (renew_expired demo_vault demo_self)"
  obtain b self1 evs where
    l: "probe_loop (demo_aws 299) demo_vault [1..<60 * 5] ?s [] = (b, self1, [] @ evs)"
    by (metis prod_cases3 append_Nil)
  from probe_loop_asked [OF l] have f: "\<forall>p\<in>set (probes evs). isl p"
    by (auto simp: demo_aws_regions)
  from probe_loop_trace [OF l] f have len: "length (probes evs) = 299"
    by auto
  obtain r self2 tr2 where a: "all_regions (demo_aws 299) self1 ([] @ evs) = (r, self2, tr2)"
    by (metis prod_cases3)
  from all_regions_asked [OF a] len have r: "\<not> isl r"
    by (auto simp: demo_aws_regions)
  from check_credentials_True_iff_probe_succeeds [OF l] f r a
  have 1: "fst (check_credentials (demo_aws 299) demo_vault demo_self []) = Inr None"
    by simp
  obtain b' self1' evs' where
    l': "probe_loop (demo_aws 2) demo_vault [1..<60 * 5] ?s [] = (b', self1', [] @ evs')"
    by (metis prod_cases3 append_Nil)
  have 2: "fst (check_credentials (demo_aws 2) demo_vault demo_self []) = Inr (Some True)"
    by code_simp
  with check_credentials_True_iff_probe_succeeds [OF l']
  have "\<exists>p\<in>set (probes evs'). \<not> isl p" by simp
  with l' 1 2 show ?thesis by auto
qed

text \<open>
  C2. In \<^verbatim>\<open>check_credentials\<close>, an expired vault credential is renewed and the three caches
  (ec2 resources, ec2 clients, eks clients) are emptied first, in \<open>renew_expired\<close>; the
  secret and the key are read afterwards, from the credential as \<open>renew_expired\<close> left it,
  so from the renewed one. In every case the stored secret and key at the end of the
  method are what \<^verbatim>\<open>getData\<close> gave for \<^verbatim>\<open>secret_key\<close> and then for \<^verbatim>\<open>access_key\<close>. After
  an expiry no handle built from the old keys is left: the resource and eks caches are
  empty at the end and the ec2 client cache holds at most the handle of the default
  region, built by the probes with the new key and secret.
\<close>

theorem check_credentials_renews_expired:
  assumes "check_credentials E V self tr = (r, self', tr')"
  shows "(isExpired V (EC2__credentials self) \<longrightarrow>
            EC2__credentials (renew_expired V self) = renew V (EC2__credentials self) \<and>
            EC2__ec2_resource (renew_expired V self) = Map.empty \<and>
            EC2__ec2_client (renew_expired V self) = Map.empty \<and>
            EC2__eks_client (renew_expired V self) = Map.empty) \<and>
         (\<not> isExpired V (EC2__credentials self) \<longrightarrow> renew_expired V self = self) \<and>
         (\<exists>s k c. getData V ''secret_key'' (EC2__credentials (renew_expired V self)) = (s, c) \<and>
                  getData V ''access_key'' c = (k, EC2__credentials self') \<and>
                  EC2__secret self' = Some s \<and> EC2__key self' = Some k) \<and>
         (isExpired V (EC2__credentials self) \<longrightarrow>
            EC2__ec2_resource self' = Map.empty \<and> EC2__eks_client self' = Map.empty \<and>
            (\<forall>region h. EC2__ec2_client self' region = Some h \<longrightarrow>
               region = default_region \<and> aws_access_key_id h = EC2__key self' \<and>
               aws_secret_access_key h = EC2__secret self'))"
proof -
  let ?s = "read_keys V (renew_expired V self)"
  note f = check_credentials_self [OF assms]
  have keys: "EC2__secret self' = EC2__secret ?s" "EC2__key self' = EC2__key ?s"
    "EC2__credentials self' = EC2__credentials ?s"
    "EC2__ec2_resource self' = EC2__ec2_resource ?s" "EC2__eks_client self' = EC2__eks_client ?s"
    using f by auto
  have 3: "\<exists>s k c. getData V ''secret_key'' (EC2__credentials (renew_expired V self)) = (s, c) \<and>
                  getData V ''access_key'' c = (k, EC2__credentials self') \<and>
                  EC2__secret self' = Some s \<and> EC2__key self' = Some k"
  proof -
    obtain s c where g1: "getData V ''secret_key'' (EC2__credentials (renew_expired V self)) = (s, c)"
      by (cases "getData V ''secret_key'' (EC2__credentials (renew_expired V self))") auto
    obtain k c' where g2: "getData V ''access_key'' c = (k, c')"
      by (cases "getData V ''access_key'' c") auto
    from g1 g2 show ?thesis
      unfolding keys by (intro exI [of _ s] exI [of _ k] exI [of _ c]) (simp add: read_keys_fields)
  qed
  have 4: "EC2__ec2_resource self' = Map.empty \<and> EC2__eks_client self' = Map.empty \<and>
            (\<forall>region h. EC2__ec2_client self' region = Some h \<longrightarrow>
               region = default_region \<and> aws_access_key_id h = EC2__key self' \<and>
               aws_secret_access_key h = EC2__secret self')"
    if x: "isExpired V (EC2__credentials self)"
  proof -
    from renew_expired_fields(1) [OF x] have e: "EC2__ec2_resource ?s = Map.empty"
      "EC2__eks_client ?s = Map.empty" "EC2__ec2_client ?s = Map.empty"
      by (simp_all add: read_keys_fields)
    from f e(3) have "self' = ?s \<or> (\<exists>t. EC2__ec2_client self' =
        [default_region \<mapsto> boto3 Client ''ec2'' (EC2__key ?s) (EC2__secret ?s) default_region t])"
      by auto
    then have "\<forall>region h. EC2__ec2_client self' region = Some h \<longrightarrow>
               region = default_region \<and> aws_access_key_id h = EC2__key self' \<and>
               aws_secret_access_key h = EC2__secret self'"
      unfolding keys using e(3) by (auto simp: boto3_def split: if_splits)
    with e keys show ?thesis by simp
  qed
  from 3 4 renew_expired_fields [of V self] show ?thesis by blast
qed

theorem check_credentials_renews_expired_witness:
  "isExpired demo_vault (EC2__credentials stale_self) \<and>
   EC2__credentials (fst (snd (check_credentials (demo_aws 0) demo_vault stale_self []))) =
     \<lparr>cred_namespace = ''qa'', lease = 1, stale = False\<rparr> \<and>
   EC2__secret (fst (snd (check_credentials (demo_aws 0) demo_vault stale_self []))) = Some ''secret_key+'' \<and>
   EC2__key (fst (snd (check_credentials (demo_aws 0) demo_vault stale_self []))) = Some ''access_key+'' \<and>
   EC2__ec2_resource (fst (snd (check_credentials (demo_aws 0) demo_vault stale_self []))) = Map.empty \<and>
   EC2__eks_client (fst (snd (check_credentials (demo_aws 0) demo_vault stale_self []))) = Map.empty \<and>
   EC2__ec2_client (fst (snd (check_credentials (demo_aws 0) demo_vault stale_self []))) ''us-east-1'' = None"
proof -
  let ?cc = "check_credentials (demo_aws 0) demo_vault stale_self []"
  have x: "isExpired demo_vault (EC2__credentials stale_self)"
    by (simp add: demo_vault_def stale_self_def)
  have n: "''us-east-1'' \<noteq> default_region"
    by (simp add: default_region_def)
  have g: "EC2__credentials (renew_expired demo_vault stale_self) =
             \<lparr>cred_namespace = ''qa'', lease = 1, stale = False\<rparr>"
    by (simp add: renew_expired_def demo_vault_def stale_self_def)
  have d: "getData demo_vault name c = (name @ replicate (lease c) (CHR ''+''), c)" for name c
    by (simp add: demo_vault_def)
  from check_credentials_renews_expired [OF run_collapse [of ?cc]] x n
  show ?thesis
    unfolding g d by (cases "EC2__ec2_client (fst (snd ?cc)) ''us-east-1''") auto
qed

text \<open>
  C9 as stated does not hold: the probes of \<^verbatim>\<open>check_credentials\<close> go through
  \<^verbatim>\<open>ec2_client()\<close>, which builds and stores the handle of the default region when the
  cache has none. On a new object, whose credential is not expired, the ec2 client cache
  after the check differs from the one before.
\<close>

theorem check_credentials_changes_cache:
  "\<not> isExpired demo_vault (EC2__credentials demo_self) \<and>
   EC2__ec2_client (fst (snd (check_credentials (demo_aws 0) demo_vault demo_self []))) \<noteq>
     EC2__ec2_client demo_self"
proof -
  let ?cc = "check_credentials (demo_aws 0) demo_vault demo_self []"
  have "EC2__ec2_client (fst (snd ?cc)) default_region \<noteq> None"
    by (rule check_credentials_cached [OF run_collapse])
  moreover have "EC2__ec2_client demo_self default_region = None"
    by (simp add: demo_self_def object_new_def)
  moreover have "\<not> isExpired demo_vault (EC2__credentials demo_self)"
    by (simp add: demo_self_def object_new_def demo_vault_def)
  ultimately show ?thesis by auto
qed

text \<open>
  C9, amended. When the vault credential is not expired, \<^verbatim>\<open>check_credentials\<close> drops and
  replaces no cached handle, and it reassigns the secret and the key: at the end they are
  what \<^verbatim>\<open>getData\<close> gave for \<^verbatim>\<open>secret_key\<close> and then for \<^verbatim>\<open>access_key\<close> on the credential the
  object had, which is not renewed. The ec2 resource cache and the eks client cache are
  unchanged, and so is every entry of the ec2 client cache for a region other than the
  default one. When the default region already has an ec2 client, the ec2 client cache
  is unchanged as a whole; when it has none, the probe adds one, built with the key and
  secret just read.
\<close>

theorem check_credentials_keeps_handles:
  assumes "\<not> isExpired V (EC2__credentials self)"
    and "check_credentials E V self tr = (r, self', tr')"
  shows "(\<exists>s k c. getData V ''secret_key'' (EC2__credentials self) = (s, c) \<and>
            getData V ''access_key'' c = (k, EC2__credentials self') \<and>
            EC2__secret self' = Some s \<and> EC2__key self' = Some k \<and>
            (EC2__ec2_client self default_region = None \<longrightarrow>
               (\<exists>t. EC2__ec2_client self' default_region =
                  Some (boto3 Client ''ec2'' (Some k) (Some s) default_region t)))) \<and>
         oid self' = oid self \<and>
         EC2__ec2_resource self' = EC2__ec2_resource self \<and>
         EC2__eks_client self' = EC2__eks_client self \<and>
         (\<forall>region. region \<noteq> default_region \<longrightarrow>
            EC2__ec2_client self' region = EC2__ec2_client self region) \<and>
         (\<forall>h. EC2__ec2_client self default_region = Some h \<longrightarrow>
            EC2__ec2_client self' = EC2__ec2_client self)"
proof -
  let ?s = "read_keys V (renew_expired V self)"
  from assms(1) have s: "renew_expired V self = self"
    by (rule renew_expired_fields(2))
  note f = check_credentials_self [OF assms(2)]
  note c = check_credentials_cached [OF assms(2)]
  have cache: "EC2__ec2_client ?s = EC2__ec2_client self"
    "EC2__ec2_resource ?s = EC2__ec2_resource self" "EC2__eks_client ?s = EC2__eks_client self"
    "oid ?s = oid self"
    unfolding s by (simp_all add: read_keys_fields)
  have keys: "EC2__secret self' = EC2__secret ?s" "EC2__key self' = EC2__key ?s"
    "EC2__credentials self' = EC2__credentials ?s"
    "EC2__ec2_resource self' = EC2__ec2_resource ?s" "EC2__eks_client self' = EC2__eks_client ?s"
    "oid self' = oid ?s"
    using f by auto
  from f have cl: "EC2__ec2_client self' = EC2__ec2_client self \<or>
     (EC2__ec2_client self default_region = None \<and>
      (\<exists>t. EC2__ec2_client self' = (EC2__ec2_client self)(default_region \<mapsto>
                    boto3 Client ''ec2'' (EC2__key self') (EC2__secret self') default_region t)))"
    unfolding keys cache [symmetric] by auto
  obtain sk c1 where g1: "getData V ''secret_key'' (EC2__credentials self) = (sk, c1)"
    by (cases "getData V ''secret_key'' (EC2__credentials self)") auto
  obtain k c2 where g2: "getData V ''access_key'' c1 = (k, c2)"
    by (cases "getData V ''access_key'' c1") auto
  have kv: "EC2__secret self' = Some sk" "EC2__key self' = Some k" "EC2__credentials self' = c2"
    unfolding keys s using g1 g2 by (simp_all add: read_keys_fields)
  have 3: "EC2__ec2_client self default_region = None \<longrightarrow>
            (\<exists>t. EC2__ec2_client self' default_region =
               Some (boto3 Client ''ec2'' (Some k) (Some sk) default_region t))"
    using cl c unfolding kv by auto
  have 0: "\<exists>s k c. getData V ''secret_key'' (EC2__credentials self) = (s, c) \<and>
            getData V ''access_key'' c = (k, EC2__credentials self') \<and>
            EC2__secret self' = Some s \<and> EC2__key self' = Some k \<and>
            (EC2__ec2_client self default_region = None \<longrightarrow>
               (\<exists>t. EC2__ec2_client self' default_region =
                  Some (boto3 Client ''ec2'' (Some k) (Some s) default_region t)))"
    using g1 g2 kv 3 by (intro exI [of _ sk] exI [of _ k] exI [of _ c1]) simp
  have 1: "\<forall>region. region \<noteq> default_region \<longrightarrow>
            EC2__ec2_client self' region = EC2__ec2_client self region"
    using cl by auto
  have 2: "\<forall>h. EC2__ec2_client self default_region = Some h \<longrightarrow>
            EC2__ec2_client self' = EC2__ec2_client self"
    using cl by auto
  from 0 1 2 keys cache show ?thesis by simp
qed

theorem check_credentials_keeps_handles_witness:
  "\<not> isExpired demo_vault (EC2__credentials warm_self) \<and>
   EC2__ec2_client warm_self default_region = Some (old_handle Client ''ec2'' ''eu-central-1'') \<and>
   EC2__secret warm_self = Some ''old-secret'' \<and> EC2__key warm_self = Some ''old-key'' \<and>
   EC2__secret (fst (snd (check_credentials (demo_aws 0) demo_vault warm_self []))) = Some ''secret_key'' \<and>
   EC2__key (fst (snd (check_credentials (demo_aws 0) demo_vault warm_self []))) = Some ''access_key'' \<and>
   EC2__ec2_client (fst (snd (check_credentials (demo_aws 0) demo_vault warm_self []))) =
     EC2__ec2_client warm_self \<and>
   EC2__eks_client (fst (snd (check_credentials (demo_aws 0) demo_vault warm_self []))) =
     EC2__eks_client warm_self \<and>
   EC2__ec2_resource (fst (snd (check_credentials (demo_aws 0) demo_vault warm_self []))) =
     EC2__ec2_resource warm_self \<and>
   EC2__ec2_client demo_self default_region = None \<and>
   (\<exists>t. EC2__ec2_client (fst (snd (check_credentials (demo_aws 0) demo_vault demo_self []))) default_region =
      Some (boto3 Client ''ec2'' (Some ''access_key'') (Some ''secret_key'') default_region t))"
proof -
  let ?cc = "check_credentials (demo_aws 0) demo_vault warm_self []"
  let ?cd = "check_credentials (demo_aws 0) demo_vault demo_self []"
  have x: "\<not> isExpired demo_vault (EC2__credentials warm_self)"
    by (simp add: demo_vault_def warm_self_def)
  have y: "\<not> isExpired demo_vault (EC2__credentials demo_self)"
    by (simp add: demo_self_def object_new_def demo_vault_def)
  have h: "EC2__ec2_client warm_self default_region = Some (old_handle Client ''ec2'' ''eu-central-1'')"
    by (simp add: warm_self_def stale_self_def default_region_def)
  have o: "EC2__secret warm_self = Some ''old-secret''" "EC2__key warm_self = Some ''old-key''"
    by (simp_all add: warm_self_def stale_self_def)
  have e: "EC2__ec2_client demo_self default_region = None"
    by (simp add: demo_self_def object_new_def)
  have d: "getData demo_vault name c = (name @ replicate (lease c) (CHR ''+''), c)" for name c
    by (simp add: demo_vault_def)
  have l: "lease (EC2__credentials warm_self) = 0" "lease (EC2__credentials demo_self) = 0"
    by (simp_all add: warm_self_def demo_self_def object_new_def demo_vault_def)
  from check_credentials_keeps_handles [OF x run_collapse [of ?cc]] h
  have 1: "EC2__secret (fst (snd ?cc)) = Some ''secret_key'' \<and>
           EC2__key (fst (snd ?cc)) = Some ''access_key'' \<and>
           EC2__ec2_client (fst (snd ?cc)) = EC2__ec2_client warm_self \<and>
           EC2__eks_client (fst (snd ?cc)) = EC2__eks_client warm_self \<and>
           EC2__ec2_resource (fst (snd ?cc)) = EC2__ec2_resource warm_self"
    unfolding d by (auto simp: l)
  from check_credentials_keeps_handles [OF y run_collapse [of ?cd]] e
  have 2: "\<exists>t. EC2__ec2_client (fst (snd ?cd)) default_region =
      Some (boto3 Client ''ec2'' (Some ''access_key'') (Some ''secret_key'') default_region t)"
    unfolding d by (auto simp: l)
  from x h o e 1 2 show ?thesis by simp
qed

subsection \<open>The handles of a region\<close>




subsection \<open>Clusters and instances\<close>

text \<open>
  C7. When \<^verbatim>\<open>all_clusters\<close> returns, it has asked \<^verbatim>\<open>all_regions\<close> for the regions and
  then sent one \<^verbatim>\<open>list_clusters\<close> request for each region, in the order of the regions
  and through the EKS client stored under that region; its result is the concatenation,
  in that order, of the \<^verbatim>\<open>clusters\<close> lists of the answers, so it holds the clusters of
  every listed region and nothing else. It does return when \<^verbatim>\<open>all_regions\<close> answers, no
  \<^verbatim>\<open>list_clusters\<close> request raises, and every region listed has an EKS client stored or a
  name for which the library builds one.
\<close>

theorem all_clusters_concatenates:
  "(all_clusters E self tr = (Inr cs, self', tr') \<longrightarrow>
      (\<exists>regions self1 tr1 evs hs resps.
           all_regions E self tr = (Inr regions, self1, tr1) \<and>
           tr' = tr1 @ evs \<and> cluster_answers evs = zip hs (map Inr resps) \<and>
           length hs = length regions \<and> length resps = length regions \<and>
           (\<forall>j<length regions. EC2__eks_client self' (regions ! j) = Some (hs ! j) \<and>
               (\<exists>t. list_clusters E t (hs ! j) = Inr (resps ! j))) \<and>
           cs = concat (map clusters resps) \<and>
           set cs = (\<Union>resp\<in>set resps. set (clusters resp)))) \<and>
   ((\<forall>t h. \<not> isl (list_clusters E t h)) \<and>
    (\<exists>regions. fst (all_regions E self tr) = Inr regions \<and>
       (\<forall>region\<in>set regions. region_error E region = None \<or>
                             EC2__eks_client self region \<noteq> None)) \<longrightarrow>
      \<not> isl (fst (all_clusters E self tr)))"
proof (intro conjI impI)
  assume assms: "all_clusters E self tr = (Inr cs, self', tr')"
  obtain r self1 tr1 where a: "all_regions E self tr = (r, self1, tr1)"
    by (metis prod_cases3)
  with assms obtain regions where r: "r = Inr regions"
    and l: "clusters_loop E regions [] self1 tr1 = (Inr cs, self', tr')"
    by (cases r) (auto simp: all_clusters_def)
  from clusters_loop_answers [OF l] obtain evs hs resps where
    f: "tr' = tr1 @ evs" "cluster_answers evs = zip hs (map Inr resps)"
       "length hs = length regions" "length resps = length regions"
       "\<forall>j<length regions. EC2__eks_client self' (regions ! j) = Some (hs ! j) \<and>
              (\<exists>t. list_clusters E t (hs ! j) = Inr (resps ! j))"
       "cs = [] @ concat (map clusters resps)"
    by blast
  from f(6) have "set cs = (\<Union>resp\<in>set resps. set (clusters resp))" by auto
  with a r f show "\<exists>regions self1 tr1 evs hs resps.
           all_regions E self tr = (Inr regions, self1, tr1) \<and>
           tr' = tr1 @ evs \<and> cluster_answers evs = zip hs (map Inr resps) \<and>
           length hs = length regions \<and> length resps = length regions \<and>
           (\<forall>j<length regions. EC2__eks_client self' (regions ! j) = Some (hs ! j) \<and>
               (\<exists>t. list_clusters E t (hs ! j) = Inr (resps ! j))) \<and>
           cs = concat (map clusters resps) \<and>
           set cs = (\<Union>resp\<in>set resps. set (clusters resp))" by auto
next
  assume h: "(\<forall>t h. \<not> isl (list_clusters E t h)) \<and>
    (\<exists>regions. fst (all_regions E self tr) = Inr regions \<and>
       (\<forall>region\<in>set regions. region_error E region = None \<or>
                             EC2__eks_client self region \<noteq> None))"
  obtain r self1 tr1 where a: "all_regions E self tr = (r, self1, tr1)"
    by (metis prod_cases3)
  with h obtain regions where r: "r = Inr regions"
    and ok: "\<forall>region\<in>set regions. region_error E region = None \<or>
                             EC2__eks_client self region \<noteq> None"
    by auto
  have "EC2__eks_client self1 = EC2__eks_client self"
    using all_regions_self [OF a] by auto
  with ok have ok1: "\<forall>region\<in>set regions. region_error E region = None \<or>
                             EC2__eks_client self1 region \<noteq> None"
    by simp
  from h have "\<forall>t h. \<not> isl (list_clusters E t h)" by blast
  from clusters_loop_returns [OF this ok1, of "[]" tr1] a r
  show "\<not> isl (fst (all_clusters E self tr))"
    by (auto simp: all_clusters_def)
qed

theorem all_clusters_concatenates_witness:
  "fst (all_clusters (demo_aws 0) demo_self []) = Inr [''alpha'', ''beta'', ''gamma''] \<and>
   fst (all_regions (demo_aws 0) demo_self []) = Inr [''eu-central-1'', ''us-east-1''] \<and>
   (\<exists>resps :: list_clusters_resp list.
      length resps = 2 \<and> concat (map clusters resps) = [''alpha'', ''beta'', ''gamma''])"
proof -
  let ?ac = "all_clusters (demo_aws 0) demo_self []"
  define abg where "abg = [''alpha'', ''beta'', ''gamma'']"
  define eu where "eu = [''eu-central-1'', ''us-east-1'']"
  have c: "fst ?ac = Inr abg"
    unfolding abg_def by code_simp
  have g: "fst (all_regions (demo_aws 0) demo_self []) = Inr eu"
    unfolding eu_def by code_simp
  have e: "?ac = (Inr abg, fst (snd ?ac), snd (snd ?ac))"
    using c by (metis prod.collapse)
  note t = all_clusters_concatenates
    [of "demo_aws 0" demo_self "[]" abg "fst (snd ?ac)" "snd (snd ?ac)"]
  from t [THEN conjunct1, THEN mp, OF e]
  obtain regions self1 tr1 and resps :: "list_clusters_resp list" where
    f: "all_regions (demo_aws 0) demo_self [] = (Inr regions, self1, tr1)"
    "length resps = length regions"
    "abg = concat (map clusters resps)"
    by (elim exE conjE) (rule that)
  from f(1) g have "regions = eu" by simp
  with f have "length resps = 2 \<and> concat (map clusters resps) = abg"
    by (simp add: eu_def)
  then have "\<exists>resps :: list_clusters_resp list. length resps = 2 \<and> concat (map clusters resps) = abg" ..
  with c g show ?thesis
    unfolding abg_def eu_def by blast
qed

text \<open>
  C8. \<^verbatim>\<open>delete_instance\<close> asks the EC2 resource of the default region for the instances
  with the given id. When the answer is the empty list, it terminates no instance, logs
  one warning naming the id, and returns without an exception. When the answer has at
  least one instance, it terminates the first instance of the answer and no other, logs
  no warning, and ends as the \<^verbatim>\<open>terminate\<close> request ends.
\<close>

theorem delete_instance_terminates_first:
  assumes "delete_instance E instance_id self tr = (r, self', tr')"
  shows "\<exists>res self1 tr1. ec2_resource E default_region self tr = (Inr res, self1, tr1) \<and>
         (instances_filter E tr1 res [instance_id] = Inr [] \<longrightarrow>
            r = Inr () \<and>
            (\<exists>evs. tr' = tr @ evs \<and> terminated evs = [] \<and>
               logged WARNING evs =
                 [(''Instance {} is ACTIVE in local DB but does not exists on EC2'', [PStr instance_id])])) \<and>
         (\<forall>x xs. instances_filter E tr1 res [instance_id] = Inr (x # xs) \<longrightarrow>
            (\<exists>t. r = terminate E t x) \<and>
            (\<exists>evs. tr' = tr @ evs \<and> terminated evs = [x] \<and> logged WARNING evs = []))"
proof -
  from ec2_resource_default obtain res self1 tr1 where
    er: "ec2_resource E default_region self tr = (Inr res, self1, tr1)"
    by blast
  note assms = er assms
  from ec2_resource_cases [OF assms(1)] obtain pre where
    pre: "tr1 = tr @ pre" "terminated pre = []" "logged WARNING pre = []"
    by (elim conjE disjE) (force intro: that [of "[]"], force intro: that [of "[Boto3 res]"])
  have 1: "r = Inr () \<and>
            (\<exists>evs. tr' = tr @ evs \<and> terminated evs = [] \<and>
               logged WARNING evs =
                 [(''Instance {} is ACTIVE in local DB but does not exists on EC2'', [PStr instance_id])])"
    if f: "instances_filter E tr1 res [instance_id] = Inr []"
  proof -
    let ?w = "Log WARNING ''Instance {} is ACTIVE in local DB but does not exists on EC2'' [PStr instance_id]"
    from assms f have "r = Inr ()"
      and "tr' = tr1 @ [InstancesFilter res [instance_id] (Inr []), ?w]"
      by (simp_all add: delete_instance_def Let_def)
    with pre show ?thesis
      by (intro conjI exI [of _ "pre @ [InstancesFilter res [instance_id] (Inr []), ?w]"]) simp_all
  qed
  have 2: "(\<exists>t. r = terminate E t x) \<and>
            (\<exists>evs. tr' = tr @ evs \<and> terminated evs = [x] \<and> logged WARNING evs = [])"
    if f: "instances_filter E tr1 res [instance_id] = Inr (x # xs)" for x xs
  proof -
    let ?t2 = "tr1 @ [InstancesFilter res [instance_id] (Inr (x # xs))]"
    from assms f have r: "r = terminate E ?t2 x"
      and "tr' = ?t2 @ [Terminate x (terminate E ?t2 x)]"
      by (auto simp: delete_instance_def Let_def)
    with pre have "tr' = tr @ (pre @ [InstancesFilter res [instance_id] (Inr (x # xs)),
                     Terminate x (terminate E ?t2 x)])"
      by simp
    moreover have "terminated (pre @ [InstancesFilter res [instance_id] (Inr (x # xs)),
                     Terminate x (terminate E ?t2 x)]) = [x]"
      "logged WARNING (pre @ [InstancesFilter res [instance_id] (Inr (x # xs)),
                     Terminate x (terminate E ?t2 x)]) = []"
      using pre by simp_all
    ultimately show ?thesis using r by blast
  qed
  from 1 2 er show ?thesis by blast
qed

theorem delete_instance_terminates_first_witness:
  "fst (delete_instance (demo_aws 0) ''i-9'' demo_self []) = Inr () \<and>
   terminated (snd (snd (delete_instance (demo_aws 0) ''i-9'' demo_self []))) = [] \<and>
   terminated (snd (snd (delete_instance (demo_aws 0) ''i-1'' demo_self []))) = [Instance ''i-1'']"
proof -
  let ?d9 = "delete_instance (demo_aws 0) ''i-9'' demo_self []"
  let ?d1 = "delete_instance (demo_aws 0) ''i-1'' demo_self []"
  have f9: "instances_filter (demo_aws 0) t h [''i-9''] = Inr []" for t h
    by (simp add: demo_aws_def)
  have f1: "instances_filter (demo_aws 0) t h [''i-1''] = Inr [Instance ''i-1'', Instance ''i-2'']" for t h
    by (simp add: demo_aws_def)
  from delete_instance_terminates_first [OF run_collapse [of ?d9]] f9
  have 9: "fst ?d9 = Inr () \<and> terminated (snd (snd ?d9)) = []"
    by auto
  from delete_instance_terminates_first [OF run_collapse [of ?d1]] f1
  have 1: "terminated (snd (snd ?d1)) = [Instance ''i-1'']"
    by auto
  from 9 1 show ?thesis by simp
qed

subsection \<open>Cleaning up images\<close>

text \<open>
  C1. Let \<^verbatim>\<open>describe_images(Owners=['self'])\<close> answer with a list of images. Every
  \<^verbatim>\<open>deregister_image\<close> request that \<^verbatim>\<open>cleanup_all\<close> sends has \<^verbatim>\<open>DryRun=False\<close> and is for an
  image of the answer whose name \<^verbatim>\<open>parse_image_name\<close> parsed; with image ids that are
  pairwise different, no request carries the id of an image whose name did not parse.
  The images to delete are those whose name parsed and is not in the set that
  \<^verbatim>\<open>get_keeping_image_names\<close> returned for the list of parsed images, in the order of the
  answer: the images deregistered are always an initial part of them, and when
  \<^verbatim>\<open>cleanup_all\<close> returns they are exactly them, each deregistered by one request that was
  answered, and the log has one error record for each image whose name did not parse and
  no other. \<^verbatim>\<open>cleanup_all\<close> does return when the dictionary of every parsed name has
  \<^verbatim>\<open>build\<close> and \<^verbatim>\<open>key\<close>, every creation date of a parsed image is a date, and no
  \<^verbatim>\<open>deregister_image\<close> request raises.
\<close>

theorem cleanup_all_deregisters_unkept:
  assumes "ec2_client E default_region self tr = (Inr c, self1, tr1)"
    and "describe_images E tr1 c [''self''] = Inr response"
    and "cleanup_all E V P self tr = (r, self', tr')"
  shows "\<exists>evs. tr' = tr @ evs \<and>
     (\<forall>q\<in>set (deregister_requests evs). \<not> fst (snd q) \<and>
         (\<exists>e\<in>set (Images response). fst q = ImageId e \<and> truthy (parse_image_name P (Name e)))) \<and>
     (distinct (map ImageId (Images response)) \<longrightarrow>
        (\<forall>e\<in>set (Images response). \<not> truthy (parse_image_name P (Name e)) \<longrightarrow>
            ImageId e \<notin> fst ` set (deregister_requests evs))) \<and>
     (\<forall>images.
        list_all2 (built_from P) [e \<leftarrow> Images response. truthy (parse_image_name P (Name e))] images \<longrightarrow>
        (\<exists>rest. map ImageId [e \<leftarrow> Images response. truthy (parse_image_name P (Name e)) \<and>
                                 Name e \<notin> get_keeping_image_names P images] =
                 deregistered evs @ rest)) \<and>
     (r = Inr () \<longrightarrow>
        (\<exists>images.
           list_all2 (built_from P) [e \<leftarrow> Images response. truthy (parse_image_name P (Name e))] images \<and>
           deregister_requests evs =
             map (\<lambda>e. (ImageId e, False, Inr ()))
               [e \<leftarrow> Images response. truthy (parse_image_name P (Name e)) \<and>
                                     Name e \<notin> get_keeping_image_names P images] \<and>
           deregistered evs =
             map ImageId [e \<leftarrow> Images response. truthy (parse_image_name P (Name e)) \<and>
                                               Name e \<notin> get_keeping_image_names P images] \<and>
           logged ERROR evs =
             map (unparsed V self) [e \<leftarrow> Images response. \<not> truthy (parse_image_name P (Name e))])) \<and>
     ((\<forall>e\<in>set (Images response). truthy (parse_image_name P (Name e)) \<longrightarrow>
          \<not> isl (getitem (parse_image_name P (Name e)) ''build'') \<and>
          \<not> isl (getitem (parse_image_name P (Name e)) ''key'') \<and>
          \<not> isl (parse P (CreationDate e))) \<and>
      (\<forall>t h i. \<not> isl (deregister_image E t h i False)) \<longrightarrow>
        r = Inr ())"
proof -
  let ?ok = "\<lambda>e. truthy (parse_image_name P (Name e))"
  let ?sel = "\<lambda>images. [e \<leftarrow> Images response. ?ok e \<and> Name e \<notin> get_keeping_image_names P images]"
  let ?good = "(\<forall>e\<in>set (Images response). ?ok e \<longrightarrow>
          \<not> isl (getitem (parse_image_name P (Name e)) ''build'') \<and>
          \<not> isl (getitem (parse_image_name P (Name e)) ''key'') \<and>
          \<not> isl (parse P (CreationDate e))) \<and>
      (\<forall>t h i. \<not> isl (deregister_image E t h i False))"
  let ?t2 = "tr1 @ [DescribeImages c [''self''] (Inr response)]"
  from ec2_client_cases [OF assms(1)] obtain pre where
    pre: "tr1 = tr @ pre" "deregister_requests pre = []" "logged ERROR pre = []"
    and s1: "EC2__credentials self1 = EC2__credentials self"
    by (elim conjE disjE) (force intro: that [of "[]"], force intro: that [of "[Boto3 c]"])
  obtain r1 t3 where c1: "collect_images V P self1 (Images response) [] ?t2 = (r1, t3)"
    by (metis prod.exhaust)
  from collect_images_trace [OF c1] obtain evs1 where
    e1: "t3 = ?t2 @ evs1" "deregister_requests evs1 = []"
        "\<forall>images'. r1 = Inr images' \<longrightarrow>
          (\<exists>new. images' = [] @ new \<and> list_all2 (built_from P) (filter ?ok (Images response)) new) \<and>
          logged ERROR evs1 = map (unparsed V self1) [e \<leftarrow> Images response. \<not> ?ok e]"
    by blast
  have u: "unparsed V self1 = unparsed V self"
    by (rule ext) (simp add: unparsed_def s1)
  have safe: "distinct (map ImageId (Images response)) \<longrightarrow>
        (\<forall>e\<in>set (Images response). \<not> ?ok e \<longrightarrow> ImageId e \<notin> fst ` set qs)"
    if "\<forall>q\<in>set qs. \<not> fst (snd q) \<and> (\<exists>e\<in>set (Images response). fst q = ImageId e \<and> ?ok e)"
    for qs :: "(string \<times> bool \<times> (exn + unit)) list"
  proof (intro impI ballI notI)
    fix e assume d: "distinct (map ImageId (Images response))" and e: "e \<in> set (Images response)"
      and n: "\<not> ?ok e" and m: "ImageId e \<in> fst ` set qs"
    from m obtain q where q: "q \<in> set qs" "fst q = ImageId e" by auto
    with that obtain e' where e': "e' \<in> set (Images response)" "fst q = ImageId e'" "?ok e'"
      by blast
    from distinct_map_eq [OF d e e'(1)] q(2) e'(2) have "e = e'" by simp
    with n e'(3) show False by simp
  qed
  show ?thesis
  proof (cases r1)
    case (Inl ex)
    let ?evs = "pre @ DescribeImages c [''self''] (Inr response) # evs1"
    from Inl assms c1 have r: "r = Inl ex" and t: "tr' = t3"
      by (auto simp: cleanup_all_def)
    have q: "deregister_requests ?evs = []"
      using e1 pre by simp
    have ng: "\<not> ?good"
    proof
      assume ?good
      then have "\<forall>e\<in>set (Images response). ?ok e \<longrightarrow>
          \<not> isl (getitem (parse_image_name P (Name e)) ''build'') \<and>
          \<not> isl (getitem (parse_image_name P (Name e)) ''key'') \<and>
          \<not> isl (parse P (CreationDate e))" by blast
      from collect_images_returns [OF this, of V self1 "[]" ?t2] c1 Inl show False by simp
    qed
    have t': "tr' = tr @ ?evs"
      using t e1 pre by simp
    from t' q deregistered_none [OF q] r ng show ?thesis
      by (intro exI [of _ ?evs]) simp
  next
    case (Inr images)
    let ?keep = "get_keeping_image_names P images"
    let ?del = "[i \<leftarrow> images. image_name i \<notin> ?keep]"
    from e1(3) Inr have la: "list_all2 (built_from P) (filter ?ok (Images response)) images"
      and lg: "logged ERROR evs1 = map (unparsed V self) [e \<leftarrow> Images response. \<not> ?ok e]"
      unfolding u by auto
    from Inr assms c1 have d: "deregister_images E ?del self1 t3 = (r, self', tr')"
      by (auto simp: cleanup_all_def Let_def)
    from deregister_images_trace [OF d] obtain evs2 k where
      e2: "tr' = t3 @ evs2" "logged ERROR evs2 = []"
          "deregistered evs2 = map image_id (take k ?del)"
          "\<forall>q\<in>set (deregister_requests evs2). \<not> fst (snd q) \<and> fst q \<in> image_id ` set ?del"
          "r = Inr () \<longrightarrow> deregister_requests evs2 = map (\<lambda>i. (image_id i, False, Inr ())) ?del \<and>
                        deregistered evs2 = map image_id ?del"
          "(\<forall>t h i. \<not> isl (deregister_image E t h i False)) \<longrightarrow> r = Inr ()"
      by blast
    have sel: "map image_id ?del = map ImageId (?sel images)"
      using built_from_filter [OF la, of ?keep] by (simp add: conj_commute)
    let ?evs = "pre @ DescribeImages c [''self''] (Inr response) # evs1 @ evs2"
    have tr: "tr' = tr @ ?evs"
      using e2 e1 pre by simp
    have rq: "deregister_requests ?evs = deregister_requests evs2"
      using e1 pre by simp
    have dg: "deregistered ?evs = deregistered evs2"
      unfolding deregistered_def rq ..
    have lgs: "logged ERROR ?evs = map (unparsed V self) [e \<leftarrow> Images response. \<not> ?ok e]"
      using lg e2 pre by simp
    have ids: "image_id ` set ?del = ImageId ` set (?sel images)"
      using arg_cong [OF sel, of set] by simp
    have A: "\<forall>q\<in>set (deregister_requests ?evs). \<not> fst (snd q) \<and>
         (\<exists>e\<in>set (Images response). fst q = ImageId e \<and> ?ok e)"
      unfolding rq using e2(4) ids by fastforce
    have C: "\<forall>images'. list_all2 (built_from P) (filter ?ok (Images response)) images' \<longrightarrow>
        (\<exists>rest. map ImageId (?sel images') = deregistered ?evs @ rest)"
    proof (intro allI impI)
      fix images' assume "list_all2 (built_from P) (filter ?ok (Images response)) images'"
      from built_from_unique [OF la this] have eq: "images' = images" by simp
      have "map image_id ?del = map image_id (take k ?del) @ map image_id (drop k ?del)"
        by (simp flip: map_append)
      then show "\<exists>rest. map ImageId (?sel images') = deregistered ?evs @ rest"
        unfolding eq dg e2(3) sel [symmetric] by blast
    qed
    have D: "r = Inr () \<longrightarrow>
        (\<exists>images.
           list_all2 (built_from P) (filter ?ok (Images response)) images \<and>
           deregister_requests ?evs = map (\<lambda>e. (ImageId e, False, Inr ())) (?sel images) \<and>
           deregistered ?evs = map ImageId (?sel images) \<and>
           logged ERROR ?evs = map (unparsed V self) [e \<leftarrow> Images response. \<not> ?ok e])"
    proof
      assume "r = Inr ()"
      with e2(5) have q: "deregister_requests evs2 = map (\<lambda>i. (image_id i, False, Inr ())) ?del"
        and dd: "deregistered evs2 = map image_id ?del" by blast+
      have "map (\<lambda>i. (image_id i, False, Inr ())) ?del =
              map (\<lambda>x. (x, False, Inr ())) (map image_id ?del)"
        by simp
      also have "\<dots> = map (\<lambda>x. (x, False, Inr ())) (map ImageId (?sel images))"
        unfolding sel ..
      also have "\<dots> = map (\<lambda>e. (ImageId e, False, Inr ())) (?sel images)"
        by simp
      finally have q': "deregister_requests ?evs = map (\<lambda>e. (ImageId e, False, Inr ())) (?sel images)"
        unfolding rq q .
      have d': "deregistered ?evs = map ImageId (?sel images)"
        unfolding dg dd sel ..
      from la q' d' lgs show "\<exists>images.
           list_all2 (built_from P) (filter ?ok (Images response)) images \<and>
           deregister_requests ?evs = map (\<lambda>e. (ImageId e, False, Inr ())) (?sel images) \<and>
           deregistered ?evs = map ImageId (?sel images) \<and>
           logged ERROR ?evs = map (unparsed V self) [e \<leftarrow> Images response. \<not> ?ok e]"
        by blast
    qed
    have E: "?good \<longrightarrow> r = Inr ()"
      using e2(6) by blast
    from tr A safe [OF A] C D E show ?thesis
      by (intro exI [of _ ?evs] conjI)
  qed
qed

theorem cleanup_all_deregisters_unkept_witness:
  "fst (cleanup_all (demo_aws 0) demo_vault demo_provider demo_self []) = Inr () \<and>
   deregister_requests (snd (snd (cleanup_all (demo_aws 0) demo_vault demo_provider demo_self []))) =
     [(''ami-1'', False, Inr ())] \<and>
   deregistered (snd (snd (cleanup_all (demo_aws 0) demo_vault demo_provider demo_self []))) = [''ami-1''] \<and>
   map ImageId (Images demo_images) = [''ami-1'', ''ami-2'', ''ami-3''] \<and>
   \<not> truthy (parse_image_name demo_provider ''my-own-image'') \<and>
   ''ami-2'' \<notin> fst ` set (deregister_requests
      (snd (snd (cleanup_all (demo_aws 0) demo_vault demo_provider demo_self [])))) \<and>
   (\<exists>images. deregistered (snd (snd (cleanup_all (demo_aws 0) demo_vault demo_provider demo_self []))) =
      map ImageId [e \<leftarrow> Images demo_images. truthy (parse_image_name demo_provider (Name e)) \<and>
                     Name e \<notin> get_keeping_image_names demo_provider images])"
proof -
  let ?cl = "cleanup_all (demo_aws 0) demo_vault demo_provider demo_self []"
  let ?own = "\<lparr>Name = ''my-own-image'', CreationDate = ''2020-01-11T10:00:00.000Z'', ImageId = ''ami-2''\<rparr>"
  let ?ok = "\<lambda>e. truthy (parse_image_name demo_provider (Name e))"
  have q: "deregister_requests (snd (snd ?cl)) = [(''ami-1'', False, Inr ())]"
    by code_simp
  have d: "deregistered (snd (snd ?cl)) = [''ami-1'']"
    unfolding deregistered_def q by simp
  have ids: "map ImageId (Images demo_images) = [''ami-1'', ''ami-2'', ''ami-3'']"
    by (simp add: demo_images_def)
  have own: "?own \<in> set (Images demo_images)"
    by (simp add: demo_images_def)
  have np: "\<not> truthy (parse_image_name demo_provider ''my-own-image'')"
    by (simp add: demo_parse)
  have good: "\<forall>e\<in>set (Images demo_images). ?ok e \<longrightarrow>
          \<not> isl (getitem (parse_image_name demo_provider (Name e)) ''build'') \<and>
          \<not> isl (getitem (parse_image_name demo_provider (Name e)) ''key'') \<and>
          \<not> isl (parse demo_provider (CreationDate e))"
    by (simp add: demo_images_def demo_provider_def parse_image_name_def)
  have ans: "\<forall>t h i. \<not> isl (deregister_image (demo_aws 0) t h i False)"
    by (simp add: demo_aws_def)
  from ec2_client_default obtain c self1 tr1 where
    c: "ec2_client (demo_aws 0) default_region demo_self [] = (Inr c, self1, tr1)"
    by blast
  from cleanup_all_deregisters_unkept [OF c demo_images_answer run_collapse [of ?cl]]
  obtain evs where e0: "snd (snd ?cl) = [] @ evs \<and>
     (\<forall>q\<in>set (deregister_requests evs). \<not> fst (snd q) \<and>
         (\<exists>e\<in>set (Images demo_images). fst q = ImageId e \<and> ?ok e)) \<and>
     (distinct (map ImageId (Images demo_images)) \<longrightarrow>
        (\<forall>e\<in>set (Images demo_images). \<not> ?ok e \<longrightarrow> ImageId e \<notin> fst ` set (deregister_requests evs))) \<and>
     (\<forall>images.
        list_all2 (built_from demo_provider) [e \<leftarrow> Images demo_images. ?ok e] images \<longrightarrow>
        (\<exists>rest. map ImageId [e \<leftarrow> Images demo_images. ?ok e \<and>
                                 Name e \<notin> get_keeping_image_names demo_provider images] =
                 deregistered evs @ rest)) \<and>
     (fst ?cl = Inr () \<longrightarrow>
        (\<exists>images.
           list_all2 (built_from demo_provider) [e \<leftarrow> Images demo_images. ?ok e] images \<and>
           deregister_requests evs =
             map (\<lambda>e. (ImageId e, False, Inr ()))
               [e \<leftarrow> Images demo_images. ?ok e \<and> Name e \<notin> get_keeping_image_names demo_provider images] \<and>
           deregistered evs =
             map ImageId [e \<leftarrow> Images demo_images. ?ok e \<and>
                                               Name e \<notin> get_keeping_image_names demo_provider images] \<and>
           logged ERROR evs =
             map (unparsed demo_vault demo_self) [e \<leftarrow> Images demo_images. \<not> ?ok e])) \<and>
     ((\<forall>e\<in>set (Images demo_images). ?ok e \<longrightarrow>
          \<not> isl (getitem (parse_image_name demo_provider (Name e)) ''build'') \<and>
          \<not> isl (getitem (parse_image_name demo_provider (Name e)) ''key'') \<and>
          \<not> isl (parse demo_provider (CreationDate e))) \<and>
      (\<forall>t h i. \<not> isl (deregister_image (demo_aws 0) t h i False)) \<longrightarrow>
        fst ?cl = Inr ())"
    by (elim exE) (rule that)
  note e = e0 [THEN conjunct1]
    e0 [THEN conjunct2, THEN conjunct2, THEN conjunct1]
    e0 [THEN conjunct2, THEN conjunct2, THEN conjunct2, THEN conjunct2, THEN conjunct1]
    e0 [THEN conjunct2, THEN conjunct2, THEN conjunct2, THEN conjunct2, THEN conjunct2]
  from e(1) have ev: "evs = snd (snd ?cl)" by simp
  from good ans have "(\<forall>e\<in>set (Images demo_images). ?ok e \<longrightarrow>
          \<not> isl (getitem (parse_image_name demo_provider (Name e)) ''build'') \<and>
          \<not> isl (getitem (parse_image_name demo_provider (Name e)) ''key'') \<and>
          \<not> isl (parse demo_provider (CreationDate e))) \<and>
      (\<forall>t h i. \<not> isl (deregister_image (demo_aws 0) t h i False))" ..
  with e(4) have r: "fst ?cl = Inr ()" by (rule mp)
  have dist: "distinct (map ImageId (Images demo_images))"
    unfolding ids by simp
  from e(2) dist have "\<forall>e\<in>set (Images demo_images). \<not> ?ok e \<longrightarrow> ImageId e \<notin> fst ` set (deregister_requests evs)"
    by (rule mp)
  from this own have "\<not> ?ok ?own \<longrightarrow> ImageId ?own \<notin> fst ` set (deregister_requests evs)"
    by (rule bspec)
  with np have 2: "''ami-2'' \<notin> fst ` set (deregister_requests (snd (snd ?cl)))"
    unfolding ev by simp
  from e(3) r have 3: "\<exists>images. deregistered (snd (snd ?cl)) =
      map ImageId [e \<leftarrow> Images demo_images. ?ok e \<and>
                     Name e \<notin> get_keeping_image_names demo_provider images]"
    unfolding ev by blast
  from r q d ids np 2 3 show ?thesis by (intro conjI)
qed

subsection \<open>One provider for a namespace\<close>



end
